theory Spec2Isabelle
  imports Complex_Main "HOL-Library.Word" "HOL-Library.Sublist"
begin

section \<open>Data model\<close>

text \<open>
  The two programs (\<^verbatim>\<open>coberturaGuloso.c\<close> and \<^verbatim>\<open>coberturaBacktracking.c\<close>) share the
  structs \<^verbatim>\<open>Intervalo\<close> and \<^verbatim>\<open>Ponto\<close>. Their fields are C \<^verbatim>\<open>int\<close>s: 32-bit words read
  as two's complement (\<open>sint\<close>). The field \<^verbatim>\<open>id\<close> of \<^verbatim>\<open>Ponto\<close> is called \<open>id_p\<close> here.
\<close>

record Intervalo =
  inicio :: "32 word"
  fim :: "32 word"

record Ponto =
  id_p :: "32 word"
  posicao :: "32 word"

definition INT_MAX :: int where
  "INT_MAX = 2147483647"

section \<open>The coverage predicate\<close>

text \<open>
  \<^verbatim>\<open>if (ponto.posicao >= intervalo.inicio && ponto.posicao <= intervalo.fim) resultado = 1;
  else resultado = 0;\<close>
  The same body appears in both programs.
\<close>

definition ponto_coberto_por_intervalo :: "Ponto \<Rightarrow> Intervalo \<Rightarrow> int" where
  "ponto_coberto_por_intervalo ponto intervalo =
     (if sint (posicao ponto) \<ge> sint (inicio intervalo) \<and> sint (posicao ponto) \<le> sint (fim intervalo)
      then 1 else 0)"

definition ponto_coberto_por_intervalo_backtracking :: "Ponto \<Rightarrow> Intervalo \<Rightarrow> int" where
  "ponto_coberto_por_intervalo_backtracking ponto intervalo =
     (if sint (posicao ponto) \<ge> sint (inicio intervalo) \<and> sint (posicao ponto) \<le> sint (fim intervalo)
      then 1 else 0)"

section \<open>The allocator\<close>

text \<open>
  \<^verbatim>\<open>malloc\<close> and \<^verbatim>\<open>calloc\<close> may return \<^verbatim>\<open>NULL\<close>, and the programs branch on it.
  A block obtained from \<^verbatim>\<open>malloc\<close> has indeterminate contents. Both are an explicit
  input: the list of the answers to the allocator calls still to come, consumed one per
  call. An answer is a failure or a block with the cells it happens to hold.
  \<open>c_alloc\<close> is the outcome of the next call (success, and the answers that remain) and
  \<open>c_conteudo n\<close> the \<open>n\<close> cells of the block it returns. \<^verbatim>\<open>calloc\<close> zeroes its block,
  so its callers use \<open>c_alloc\<close> only. When the list is exhausted every later call
  succeeds; cells that an answer does not give hold \<open>indeterminado\<close>.
\<close>

datatype resposta = Falha | Bloco "Intervalo list"

definition indeterminado :: Intervalo where
  "indeterminado = \<lparr>inicio = 0, fim = 0\<rparr>"

definition c_alloc :: "resposta list \<Rightarrow> bool \<times> resposta list" where
  "c_alloc al = (case al of [] \<Rightarrow> (True, []) | r # rs \<Rightarrow> (r \<noteq> Falha, rs))"

definition c_conteudo :: "nat \<Rightarrow> resposta list \<Rightarrow> Intervalo list" where
  "c_conteudo n al =
     (case al of Bloco g # rs \<Rightarrow> take n (g @ replicate n indeterminado)
      | _ \<Rightarrow> replicate n indeterminado)"

section \<open>The exact solver (coberturaBacktracking.c)\<close>

text \<open>
  The struct \<^verbatim>\<open>ProblemaBacktracking\<close>. An array and its length field are one list
  (\<open>n_intervalos\<close> and \<open>n_pontos\<close> are the lengths). \<^verbatim>\<open>melhor_solucao\<close> is tested against
  \<^verbatim>\<open>NULL\<close> by the code, so it is an option. The counters are C \<^verbatim>\<open>int\<close>s that stay
  between 0 and the length of an array, modelled as \<open>int\<close>; \<^verbatim>\<open>nos_visitados\<close> grows with
  the size of the search tree and is a 32-bit word. The fields \<^verbatim>\<open>tempo_execucao\<close>
  and \<^verbatim>\<open>memoria_utilizada\<close> (clock and resource usage) are left out, as is
  \<^verbatim>\<open>pontos_cobertos\<close>/\<^verbatim>\<open>n_pontos_cobertos\<close>, which this program never uses after
  initialisation. The field \<^verbatim>\<open>qualidade\<close>, a \<^verbatim>\<open>double\<close>, is kept apart from the record: the
  value it receives is \<open>qualidade_backtracking\<close>, in the section on the quality ratio. \<open>alocador\<close> is not a field of the struct: it is the
  allocator's future behaviour. Of the struct \<^verbatim>\<open>MetricasBacktracking\<close> the two integer
  fields are kept, with the suffix \<open>_m\<close>.
\<close>

record ProblemaBacktracking =
  intervalos :: "Intervalo list"
  pontos :: "Ponto list"
  solucao_atual :: "Intervalo list"
  n_solucao_atual :: int
  melhor_solucao :: "Intervalo list option"
  n_melhor_solucao :: int
  nos_visitados :: "32 word"
  alocador :: "resposta list"

record MetricasBacktracking =
  n_solucao_m :: int
  nos_visitados_m :: "32 word"

definition n_intervalos :: "ProblemaBacktracking \<Rightarrow> int" where
  "n_intervalos problema = int (length (intervalos problema))"

definition n_pontos :: "ProblemaBacktracking \<Rightarrow> int" where
  "n_pontos problema = int (length (pontos problema))"

text \<open>\<^verbatim>\<open>inicializar_problema_backtracking\<close> assigns every field.\<close>

definition inicializar_problema_backtracking :: "resposta list \<Rightarrow> ProblemaBacktracking" where
  "inicializar_problema_backtracking al =
     \<lparr>intervalos = [], pontos = [], solucao_atual = [], n_solucao_atual = 0,
      melhor_solucao = None, n_melhor_solucao = INT_MAX, nos_visitados = 0, alocador = al\<rparr>"

text \<open>
  The \<^verbatim>\<open>configurar_cenario_*\<close> functions store the points and the (sorted) intervals
  into an initialised struct; \<open>preparar_backtracking\<close> is that step for arbitrary arrays.
\<close>

definition preparar_backtracking :: "Ponto list \<Rightarrow> Intervalo list \<Rightarrow> resposta list \<Rightarrow> ProblemaBacktracking" where
  "preparar_backtracking ps ivs al =
     (inicializar_problema_backtracking al)\<lparr>pontos := ps, intervalos := ivs\<rparr>"

text \<open>
  \<^verbatim>\<open>verificar_cobertura_parcial\<close>: a zeroed array from \<^verbatim>\<open>calloc\<close> (result 0 when it
  fails), then for each chosen interval \<open>i\<close> and each point \<open>j\<close> not yet marked, mark and
  count it when the interval covers it; the answer is 1 when the count is \<open>n_pontos\<close>.
\<close>

definition verificar_cobertura_parcial :: "ProblemaBacktracking \<Rightarrow> int \<times> ProblemaBacktracking" where
  "verificar_cobertura_parcial problema =
     (let (ok, al) = c_alloc (alocador problema);
          problema = problema\<lparr>alocador := al\<rparr>
      in if \<not> ok then (0, problema)
         else
           let (cobertura_temp, pontos_cobertos) =
                 fold (\<lambda>i. fold (\<lambda>j (t, c).
                         if t ! j = (0::int) then
                           (if ponto_coberto_por_intervalo_backtracking
                                 (pontos problema ! j) (solucao_atual problema ! i) \<noteq> 0
                            then (t[j := 1], c + 1) else (t, c))
                         else (t, c))
                       [0..<nat (n_pontos problema)])
                   [0..<nat (n_solucao_atual problema)]
                   (replicate (nat (n_pontos problema)) 0, 0::int)
           in (if pontos_cobertos = n_pontos problema then 1 else 0, problema))"

text \<open>
  \<^verbatim>\<open>copiar_solucao\<close>: allocate \<^verbatim>\<open>melhor_solucao\<close> on first use; when it is not
  \<^verbatim>\<open>NULL\<close>, copy the first \<open>n_solucao_atual\<close> cells and set \<open>n_melhor_solucao\<close>.
\<close>

definition copiar_solucao :: "ProblemaBacktracking \<Rightarrow> ProblemaBacktracking" where
  "copiar_solucao problema =
     (let problema =
            (if melhor_solucao problema = None then
               (let (ok, al) = c_alloc (alocador problema)
                in problema\<lparr>melhor_solucao :=
                               (if ok then Some (c_conteudo (nat (n_intervalos problema))
                                                    (alocador problema))
                                else None),
                            alocador := al\<rparr>)
             else problema)
      in case melhor_solucao problema of
           None \<Rightarrow> problema
         | Some b \<Rightarrow>
             problema\<lparr>melhor_solucao :=
                         Some (fold (\<lambda>i b. b[i := solucao_atual problema ! i])
                                 [0..<nat (n_solucao_atual problema)] b),
                      n_melhor_solucao := n_solucao_atual problema\<rparr>)"

text \<open>
  \<^verbatim>\<open>backtracking_recursivo\<close>. The index starts at 0 and only grows, so it is a \<open>nat\<close>.
  The function reads and writes one struct through a pointer: the model takes the
  state and returns the new one.
\<close>

function backtracking_recursivo :: "ProblemaBacktracking \<Rightarrow> nat \<Rightarrow> ProblemaBacktracking" where
  "backtracking_recursivo problema indice_intervalo =
     (let problema = problema\<lparr>nos_visitados := nos_visitados problema + 1\<rparr>
      in if int indice_intervalo \<ge> n_intervalos problema then problema
         else if n_solucao_atual problema \<ge> n_melhor_solucao problema then problema
         else
           let pode_podar = (if n_solucao_atual problema + 1 \<ge> n_melhor_solucao problema
                             then 1 else (0::int));
               problema =
                 (if pode_podar = 0 then
                    let problema = problema
                          \<lparr>solucao_atual := (solucao_atual problema)
                              [nat (n_solucao_atual problema) := intervalos problema ! indice_intervalo],
                           n_solucao_atual := n_solucao_atual problema + 1\<rparr>;
                        (r, problema) = verificar_cobertura_parcial problema;
                        problema =
                          (if r \<noteq> 0 then
                             (if n_solucao_atual problema < n_melhor_solucao problema
                              then copiar_solucao problema else problema)
                           else backtracking_recursivo problema (indice_intervalo + 1))
                    in problema\<lparr>n_solucao_atual := n_solucao_atual problema - 1\<rparr>
                  else problema)
           in backtracking_recursivo problema (indice_intervalo + 1))"
  by pat_completeness auto

text \<open>
  \<^verbatim>\<open>resolver_backtracking\<close>: allocate \<^verbatim>\<open>solucao_atual\<close> (on failure return the zeroed
  metrics), reset \<open>n_solucao_atual\<close> and \<open>nos_visitados\<close>, search from index 0, and report
  \<open>n_melhor_solucao\<close> and \<open>nos_visitados\<close>. It does not reset \<open>n_melhor_solucao\<close> or
  \<open>melhor_solucao\<close>: they are what the struct holds on entry.
\<close>

definition resolver_backtracking ::
  "ProblemaBacktracking \<Rightarrow> MetricasBacktracking \<times> ProblemaBacktracking" where
  "resolver_backtracking problema =
     (let (ok, al) = c_alloc (alocador problema)
      in if \<not> ok then
           (\<lparr>n_solucao_m = 0, nos_visitados_m = 0\<rparr>,
            problema\<lparr>solucao_atual := [], alocador := al\<rparr>)
         else
           let problema = problema
                 \<lparr>solucao_atual := c_conteudo (nat (n_intervalos problema)) (alocador problema),
                  alocador := al, n_solucao_atual := 0, nos_visitados := 0\<rparr>;
               problema = backtracking_recursivo problema 0
           in (\<lparr>n_solucao_m = n_melhor_solucao problema,
                nos_visitados_m = nos_visitados problema\<rparr>, problema))"

section \<open>The greedy solver (coberturaGuloso.c)\<close>

text \<open>
  The struct \<^verbatim>\<open>Problema\<close>; its fields carry the suffix \<open>_g\<close> to keep them apart from
  those of \<^verbatim>\<open>ProblemaBacktracking\<close>. \<open>pontos_cobertos_g\<close> is the array of 0/1 marks,
  the empty list while the pointer is \<^verbatim>\<open>NULL\<close> or freed. Of the struct \<^verbatim>\<open>Metricas\<close> the
  field \<^verbatim>\<open>n_solucao\<close> is kept, as \<open>n_solucao_mg\<close>; the value of its field \<^verbatim>\<open>qualidade\<close> is
  \<open>qualidade_guloso\<close>, in the section on the quality ratio.
\<close>

record Problema =
  intervalos_g :: "Intervalo list"
  pontos_g :: "Ponto list"
  pontos_cobertos_g :: "int list"
  n_pontos_cobertos_g :: int
  solucao_g :: "Intervalo list"
  n_solucao_g :: int
  alocador_g :: "resposta list"

record Metricas =
  n_solucao_mg :: int

definition n_intervalos_g :: "Problema \<Rightarrow> int" where
  "n_intervalos_g problema = int (length (intervalos_g problema))"

definition n_pontos_g :: "Problema \<Rightarrow> int" where
  "n_pontos_g problema = int (length (pontos_g problema))"

definition inicializar_problema :: "resposta list \<Rightarrow> Problema" where
  "inicializar_problema al =
     \<lparr>intervalos_g = [], pontos_g = [], pontos_cobertos_g = [], n_pontos_cobertos_g = 0,
      solucao_g = [], n_solucao_g = 0, alocador_g = al\<rparr>"

definition preparar_guloso :: "Ponto list \<Rightarrow> Intervalo list \<Rightarrow> resposta list \<Rightarrow> Problema" where
  "preparar_guloso ps ivs al = (inicializar_problema al)\<lparr>pontos_g := ps, intervalos_g := ivs\<rparr>"

definition marcar_pontos_cobertos :: "Problema \<Rightarrow> Intervalo \<Rightarrow> Problema" where
  "marcar_pontos_cobertos problema intervalo =
     fold (\<lambda>i problema.
             if pontos_cobertos_g problema ! i = 0 then
               (if ponto_coberto_por_intervalo (pontos_g problema ! i) intervalo \<noteq> 0
                then problema\<lparr>pontos_cobertos_g := (pontos_cobertos_g problema)[i := 1],
                              n_pontos_cobertos_g := n_pontos_cobertos_g problema + 1\<rparr>
                else problema)
             else problema)
       [0..<nat (n_pontos_g problema)] problema"

definition todos_pontos_cobertos :: "Problema \<Rightarrow> int" where
  "todos_pontos_cobertos problema =
     (if n_pontos_cobertos_g problema = n_pontos_g problema then 1 else 0)"

text \<open>
  \<^verbatim>\<open>obter_proximo_ponto_nao_coberto\<close>: the loop leaves at the first unmarked index
  (\<^verbatim>\<open>break\<close>); \<open>obter_proximo_desde\<close> is the loop from index \<open>i\<close> on.
\<close>

function obter_proximo_desde :: "Problema \<Rightarrow> nat \<Rightarrow> int" where
  "obter_proximo_desde problema i =
     (if int i < n_pontos_g problema then
        (if pontos_cobertos_g problema ! i = 0 then int i
         else obter_proximo_desde problema (i + 1))
      else - 1)"
  by pat_completeness auto
termination
  by (relation "measure (\<lambda>(problema, i). nat (n_pontos_g problema) - i)") auto

definition obter_proximo_ponto_nao_coberto :: "Problema \<Rightarrow> int" where
  "obter_proximo_ponto_nao_coberto problema = obter_proximo_desde problema 0"

text \<open>
  \<^verbatim>\<open>encontrar_melhor_intervalo\<close>: the loop state is the pair
  (\<^verbatim>\<open>melhor_intervalo\<close>, \<^verbatim>\<open>max_pontos_cobertos\<close>). The two lengths are 32-bit
  subtractions, compared as signed values.
\<close>

definition encontrar_melhor_intervalo :: "Problema \<Rightarrow> nat \<Rightarrow> int" where
  "encontrar_melhor_intervalo problema indice_ponto =
     (let ponto_atual = pontos_g problema ! indice_ponto
      in fst (fold (\<lambda>i (melhor_intervalo, max_pontos_cobertos).
             if ponto_coberto_por_intervalo ponto_atual (intervalos_g problema ! i) \<noteq> 0 then
               (let pontos_cobertos_potencial =
                      fold (\<lambda>j c.
                              if pontos_cobertos_g problema ! j = 0 then
                                (if ponto_coberto_por_intervalo (pontos_g problema ! j)
                                      (intervalos_g problema ! i) \<noteq> 0
                                 then c + 1 else c)
                              else c)
                        [0..<nat (n_pontos_g problema)] (0::int)
                in if pontos_cobertos_potencial > max_pontos_cobertos
                   then (int i, pontos_cobertos_potencial)
                   else if pontos_cobertos_potencial = max_pontos_cobertos
                           \<and> pontos_cobertos_potencial > 0
                   then
                     (if melhor_intervalo = - 1 then (int i, max_pontos_cobertos)
                      else
                        (let tamanho_melhor =
                               fim (intervalos_g problema ! nat melhor_intervalo)
                               - inicio (intervalos_g problema ! nat melhor_intervalo);
                             tamanho_atual =
                               fim (intervalos_g problema ! i) - inicio (intervalos_g problema ! i)
                         in if sint tamanho_atual < sint tamanho_melhor
                            then (int i, max_pontos_cobertos)
                            else (melhor_intervalo, max_pontos_cobertos)))
                   else (melhor_intervalo, max_pontos_cobertos))
             else (melhor_intervalo, max_pontos_cobertos))
           [0..<nat (n_intervalos_g problema)] (- 1, 0::int)))"

text \<open>
  One pass through the body of the \<^verbatim>\<open>while\<close> loop of \<^verbatim>\<open>resolver_guloso\<close>:
  \<open>None\<close> when the loop is left (the condition fails, or one of the two \<^verbatim>\<open>break\<close>s),
  otherwise the state after appending the chosen interval and marking its points.
\<close>

definition guloso_iteracao :: "Problema \<Rightarrow> Problema option" where
  "guloso_iteracao problema =
     (if todos_pontos_cobertos problema = 0 then
        (let indice_ponto = obter_proximo_ponto_nao_coberto problema
         in if indice_ponto = - 1 then None
            else
              let indice_intervalo = encontrar_melhor_intervalo problema (nat indice_ponto)
              in if indice_intervalo = - 1 then None
                 else
                   let problema = problema
                         \<lparr>solucao_g := (solucao_g problema)
                             [nat (n_solucao_g problema) := intervalos_g problema ! nat indice_intervalo],
                          n_solucao_g := n_solucao_g problema + 1\<rparr>
                   in Some (marcar_pontos_cobertos problema
                              (intervalos_g problema ! nat indice_intervalo)))
      else None)"

text \<open>
  The \<^verbatim>\<open>while\<close> loop itself. Nothing in its text bounds the number of passes, so it is
  a partial function: \<open>None\<close> is a loop that never ends.
\<close>

partial_function (option) guloso_laco :: "Problema \<Rightarrow> Problema option" where
  "guloso_laco problema =
     (case guloso_iteracao problema of
        None \<Rightarrow> Some problema
      | Some problema' \<Rightarrow> guloso_laco problema')"

text \<open>
  \<^verbatim>\<open>resolver_guloso\<close>: \<^verbatim>\<open>calloc\<close> the marks, \<^verbatim>\<open>malloc\<close> the solution (either failure
  returns the zeroed metrics), run the loop, report \<open>n_solucao\<close>.
\<close>

definition resolver_guloso :: "Problema \<Rightarrow> (Metricas \<times> Problema) option" where
  "resolver_guloso problema =
     (let (ok, al) = c_alloc (alocador_g problema)
      in if \<not> ok then
           Some (\<lparr>n_solucao_mg = 0\<rparr>, problema\<lparr>pontos_cobertos_g := [], alocador_g := al\<rparr>)
         else
           let problema = problema
                 \<lparr>pontos_cobertos_g := replicate (nat (n_pontos_g problema)) 0,
                  alocador_g := al, n_pontos_cobertos_g := 0\<rparr>;
               (ok, al) = c_alloc (alocador_g problema)
           in if \<not> ok then
                Some (\<lparr>n_solucao_mg = 0\<rparr>,
                      problema\<lparr>pontos_cobertos_g := [], solucao_g := [], alocador_g := al\<rparr>)
              else
                let problema = problema
                      \<lparr>solucao_g := c_conteudo (nat (n_intervalos_g problema))
                                      (alocador_g problema),
                       alocador_g := al, n_solucao_g := 0\<rparr>
                in case guloso_laco problema of
                     None \<Rightarrow> None
                   | Some problema \<Rightarrow> Some (\<lparr>n_solucao_mg = n_solucao_g problema\<rparr>, problema))"


section \<open>The quality ratio\<close>

text \<open>
  The type \<^verbatim>\<open>double\<close> is the IEEE 754 binary64 format: a finite double is zero or
  \<open>\<plusminus> m \<sqdot> 2\<^sup>e\<close> with \<open>2\<^sup>5\<^sup>2 \<le> m < 2\<^sup>5\<^sup>3\<close>. A double is modelled by its value, a
  rational number, and an operation by the exact result rounded to the nearest double,
  to the one with the even significand when two are equally near (the default rounding
  mode, every operation rounded to \<^verbatim>\<open>double\<close>). The exponent range is not modelled: the
  operands below are integers between 0 and \<open>INT_MAX\<close>, and every nonzero result lies
  between \<open>2\<^sup>-\<^sup>8\<^sup>3\<close> and \<open>2\<^sup>3\<^sup>1\<close> in magnitude, far from overflow and underflow.

  \<open>comprimento_bits n\<close> is the number of binary digits of a positive integer,
  \<open>expoente x\<close> the integer \<open>e\<close> with \<open>2\<^sup>e \<le> \<bar>x\<bar> < 2\<^sup>e\<^sup>+\<^sup>1\<close>, \<open>arredonda_par x\<close> the integer
  nearest to \<open>x\<close> (the even one at a tie) and \<open>arredonda x\<close> the double nearest to \<open>x\<close>.
\<close>

function comprimento_bits :: "int \<Rightarrow> int" where
  "comprimento_bits n = (if n \<le> 0 then 0 else 1 + comprimento_bits (n div 2))"
  by pat_completeness auto
termination
  by (relation "measure nat") auto

definition expoente :: "rat \<Rightarrow> int" where
  "expoente x =
     (if 1 \<le> \<bar>x\<bar> then comprimento_bits \<lfloor>\<bar>x\<bar>\<rfloor> - 1
      else - comprimento_bits (\<lceil>1 / \<bar>x\<bar>\<rceil> - 1))"

definition arredonda_par :: "rat \<Rightarrow> int" where
  "arredonda_par x =
     (let f = \<lfloor>x\<rfloor>; d = x - of_int f
      in if d < 1 / 2 then f else if 1 / 2 < d then f + 1
         else if even f then f else f + 1)"

definition arredonda :: "rat \<Rightarrow> rat" where
  "arredonda x =
     (if x = 0 then 0
      else of_int (arredonda_par (x / 2 powi (expoente x - 52))) * 2 powi (expoente x - 52))"

text \<open>
  The conversion \<^verbatim>\<open>(double) n\<close> of an \<^verbatim>\<open>int\<close> (also the implicit one of the divisor), the
  division and the subtraction of doubles.
\<close>

definition double_de_int :: "int \<Rightarrow> rat" where
  "double_de_int n = arredonda (of_int n)"

definition double_div :: "rat \<Rightarrow> rat \<Rightarrow> rat" where
  "double_div x y = arredonda (x / y)"

definition double_sub :: "rat \<Rightarrow> rat \<Rightarrow> rat" where
  "double_sub x y = arredonda (x - y)"

text \<open>
  Both \<^verbatim>\<open>resolver_backtracking\<close> and \<^verbatim>\<open>resolver_guloso\<close> end with
  \<^verbatim>\<open>if (problema->n_intervalos > 0) { problema->qualidade = 1.0 - ((double)problema->n_solucao
  / problema->n_intervalos); metricas.qualidade = problema->qualidade; }
  else { problema->qualidade = 0.0; metricas.qualidade = 0.0; }\<close>
  (with \<^verbatim>\<open>n_melhor_solucao\<close> for \<^verbatim>\<open>n_solucao\<close> in the exact solver).
\<close>

definition calcular_qualidade :: "int \<Rightarrow> int \<Rightarrow> rat" where
  "calcular_qualidade n_sol n_int =
     (if n_int > 0
      then double_sub 1 (double_div (double_de_int n_sol) (double_de_int n_int))
      else 0)"

text \<open>
  The field \<^verbatim>\<open>qualidade\<close> of the metrics that \<^verbatim>\<open>resolver_backtracking\<close> returns: 0.0 on the
  path where \<^verbatim>\<open>malloc\<close> fails, otherwise the statement above on the struct after the
  search. The same for \<^verbatim>\<open>resolver_guloso\<close>, with its two allocations; \<open>None\<close> is a loop
  that never ends.
\<close>

definition qualidade_backtracking :: "ProblemaBacktracking \<Rightarrow> rat" where
  "qualidade_backtracking problema =
     (let (ok, al) = c_alloc (alocador problema)
      in if \<not> ok then 0
         else
           let problema = snd (resolver_backtracking problema)
           in calcular_qualidade (n_melhor_solucao problema) (n_intervalos problema))"

definition qualidade_guloso :: "Problema \<Rightarrow> rat option" where
  "qualidade_guloso problema =
     (let (ok, al) = c_alloc (alocador_g problema)
      in if \<not> ok then Some 0
         else
           let (ok, al) = c_alloc al
           in if \<not> ok then Some 0
              else
                case resolver_guloso problema of
                  None \<Rightarrow> None
                | Some (metricas, problema) \<Rightarrow>
                    Some (calcular_qualidade (n_solucao_g problema) (n_intervalos_g problema)))"

section \<open>Specification notions\<close>

text \<open>
  The notions the statements below are written in.
  \<^item> \<open>cobre p iv\<close>: the position of \<open>p\<close> lies in the closed range of \<open>iv\<close>.
  \<^item> \<open>cobre_todos ps A\<close>: every point of \<open>ps\<close> lies in some interval of the set \<open>A\<close>
    (a complete cover).
  \<^item> \<open>sem_falhas al\<close>: no allocator call still to come fails; \<open>alocacoes_guloso s\<close>: the
    two allocations of \<^verbatim>\<open>resolver_guloso\<close> succeed.
  \<^item> \<open>parcial s\<close>: the current partial solution of the search (the first
    \<open>n_solucao_atual\<close> cells of \<open>solucao_atual\<close>); \<open>melhor s\<close>: the best cover the struct
    holds (the first \<open>n_melhor_solucao\<close> cells of \<open>melhor_solucao\<close>); \<open>sol_g s\<close>: the
    cover of the greedy solver (the first \<open>n_solucao\<close> cells of \<open>solucao\<close>).
  \<^item> \<open>cada_um_cobre_novo ps c\<close>: each member of the list \<open>c\<close> contains a point of \<open>ps\<close>
    that no earlier member contains.
  \<^item> \<open>primeiro_descoberto s a\<close>: \<open>a\<close> is the first index whose mark is 0 (the anchor).
  \<^item> \<open>potencial s i\<close>: the number of unmarked points that interval \<open>i\<close> contains;
    \<open>tamanho iv\<close>: the length \<open>fim - inicio\<close> as an integer, and
    \<open>tamanho_representavel iv\<close>: that length fits a C \<^verbatim>\<open>int\<close>, so that the program's
    subtraction does not overflow.
  \<^item> \<open>preferido s r j\<close>: interval \<open>r\<close> is at least as good as interval \<open>j\<close> in the
    greedy order: more unmarked points, then smaller length, then smaller index.
\<close>

definition cobre :: "Ponto \<Rightarrow> Intervalo \<Rightarrow> bool" where
  "cobre p iv \<longleftrightarrow> sint (inicio iv) \<le> sint (posicao p) \<and> sint (posicao p) \<le> sint (fim iv)"

definition cobre_todos :: "Ponto list \<Rightarrow> Intervalo set \<Rightarrow> bool" where
  "cobre_todos ps A \<longleftrightarrow> (\<forall>p \<in> set ps. \<exists>iv \<in> A. cobre p iv)"

definition sem_falhas :: "resposta list \<Rightarrow> bool" where
  "sem_falhas al \<longleftrightarrow> Falha \<notin> set al"

definition parcial :: "ProblemaBacktracking \<Rightarrow> Intervalo list" where
  "parcial s = take (nat (n_solucao_atual s)) (solucao_atual s)"

definition melhor :: "ProblemaBacktracking \<Rightarrow> Intervalo list" where
  "melhor s = (case melhor_solucao s of None \<Rightarrow> []
               | Some b \<Rightarrow> take (nat (n_melhor_solucao s)) b)"

definition sol_g :: "Problema \<Rightarrow> Intervalo list" where
  "sol_g s = take (nat (n_solucao_g s)) (solucao_g s)"

definition alocacoes_guloso :: "Problema \<Rightarrow> bool" where
  "alocacoes_guloso s \<longleftrightarrow>
     fst (c_alloc (alocador_g s)) \<and> fst (c_alloc (snd (c_alloc (alocador_g s))))"

definition cada_um_cobre_novo :: "Ponto list \<Rightarrow> Intervalo list \<Rightarrow> bool" where
  "cada_um_cobre_novo ps c \<longleftrightarrow>
     (\<forall>k < length c. \<exists>p \<in> set ps. cobre p (c ! k) \<and> (\<forall>j<k. \<not> cobre p (c ! j)))"

definition primeiro_descoberto :: "Problema \<Rightarrow> nat \<Rightarrow> bool" where
  "primeiro_descoberto s a \<longleftrightarrow>
     a < length (pontos_g s) \<and> pontos_cobertos_g s ! a = 0 \<and> (\<forall>j<a. pontos_cobertos_g s ! j \<noteq> 0)"

definition potencial :: "Problema \<Rightarrow> nat \<Rightarrow> int" where
  "potencial s i =
     int (length (filter (\<lambda>j. pontos_cobertos_g s ! j = 0 \<and> cobre (pontos_g s ! j) (intervalos_g s ! i))
                    [0..<length (pontos_g s)]))"

definition tamanho :: "Intervalo \<Rightarrow> int" where
  "tamanho iv = sint (fim iv) - sint (inicio iv)"

definition tamanho_representavel :: "Intervalo \<Rightarrow> bool" where
  "tamanho_representavel iv \<longleftrightarrow> - (2 ^ 31) \<le> tamanho iv \<and> tamanho iv < 2 ^ 31"

definition preferido :: "Problema \<Rightarrow> nat \<Rightarrow> nat \<Rightarrow> bool" where
  "preferido s r j \<longleftrightarrow>
     potencial s j < potencial s r \<or>
     (potencial s j = potencial s r \<and>
      (tamanho (intervalos_g s ! r) < tamanho (intervalos_g s ! j) \<or>
       (tamanho (intervalos_g s ! r) = tamanho (intervalos_g s ! j) \<and> r \<le> j)))"

section \<open>Auxiliary definitions\<close>

text \<open>
  Names for the pieces of the loops and of one call of the search, used in the proofs
  only. For the coverage check: the marking loop over the points for one interval
  (\<open>passo_marca\<close>, \<open>laco_marcas\<close>) and over the chosen intervals (\<open>laco_intervalos\<close>).
  For one call of the search: the state after counting the node (\<open>visita\<close>), after
  appending the interval (\<open>inclui\<close>), after the coverage check (\<open>apos_verificar\<close>,
  \<open>cobre_parcial\<close>), at the end of the inclusion branch (\<open>ramo\<close>) and after the undo
  (\<open>desfaz\<close>); the two tests of the call (\<open>para\<close>, \<open>poda\<close>); what a call leaves
  unchanged (\<open>quadro\<close>); the invariant of the search (\<open>melhor_ok\<close>, \<open>inv_busca\<close>) and
  what a call establishes (\<open>resultado\<close>, \<open>apos_ramo\<close>, \<open>nao_piora\<close>); the state in which
  \<^verbatim>\<open>resolver_backtracking\<close> starts the search (\<open>inicio_busca\<close>); two states of the search
  that differ only in cells the program has not written and in the allocator
  (\<open>equivalentes\<close>). For the quality ratio: the rationals with a power of two as
  denominator (\<open>diadico\<close>). For the greedy solver:
  the length as the program computes it (\<open>tamanho32\<close>, a 32-bit subtraction), the
  intervals that contain the anchor (\<open>candidato\<close>), the order with that length
  (\<open>preferido32\<close>), one step of the selection loop (\<open>passo_escolha\<close>), the state after
  appending and marking interval \<open>r\<close> (\<open>escolhe\<close>), the loop invariant (\<open>inv_guloso\<close>)
  and the state in which the loop starts (\<open>inicio_guloso\<close>).
\<close>

definition passo_marca :: "Ponto list \<Rightarrow> Intervalo \<Rightarrow> nat \<Rightarrow> int list \<times> int \<Rightarrow> int list \<times> int" where
  "passo_marca ps iv j = (\<lambda>(t, c). if t ! j = 0 then (if cobre (ps ! j) iv then (t[j := 1], c + 1) else (t, c)) else (t, c))"

definition laco_marcas :: "Ponto list \<Rightarrow> Intervalo \<Rightarrow> nat \<Rightarrow> int list \<times> int \<Rightarrow> int list \<times> int" where
  "laco_marcas ps iv k = fold (passo_marca ps iv) [0..<k]"

definition laco_intervalos :: "Ponto list \<Rightarrow> Intervalo list \<Rightarrow> nat \<Rightarrow> int list \<times> int" where
  "laco_intervalos ps sol m =
     fold (\<lambda>i. laco_marcas ps (sol ! i) (length ps)) [0..<m] (replicate (length ps) 0, 0)"

definition visita :: "ProblemaBacktracking \<Rightarrow> ProblemaBacktracking" where
  "visita s = s\<lparr>nos_visitados := nos_visitados s + 1\<rparr>"

definition inclui :: "ProblemaBacktracking \<Rightarrow> nat \<Rightarrow> ProblemaBacktracking" where
  "inclui s i = (visita s)\<lparr>solucao_atual := (solucao_atual s)[nat (n_solucao_atual s) := intervalos s ! i],
                            n_solucao_atual := n_solucao_atual s + 1\<rparr>"

definition apos_verificar :: "ProblemaBacktracking \<Rightarrow> nat \<Rightarrow> ProblemaBacktracking" where
  "apos_verificar s i = (inclui s i)\<lparr>alocador := snd (c_alloc (alocador s))\<rparr>"

definition cobre_parcial :: "ProblemaBacktracking \<Rightarrow> nat \<Rightarrow> bool" where
  "cobre_parcial s i \<longleftrightarrow> fst (verificar_cobertura_parcial (inclui s i)) \<noteq> 0"

definition ramo :: "ProblemaBacktracking \<Rightarrow> nat \<Rightarrow> ProblemaBacktracking" where
  "ramo s i = (if cobre_parcial s i then copiar_solucao (apos_verificar s i)
               else backtracking_recursivo (apos_verificar s i) (i + 1))"

definition desfaz :: "ProblemaBacktracking \<Rightarrow> ProblemaBacktracking" where
  "desfaz s = s\<lparr>n_solucao_atual := n_solucao_atual s - 1\<rparr>"

definition para :: "ProblemaBacktracking \<Rightarrow> nat \<Rightarrow> bool" where
  "para s i \<longleftrightarrow> n_intervalos s \<le> int i \<or> n_melhor_solucao s \<le> n_solucao_atual s"

definition poda :: "ProblemaBacktracking \<Rightarrow> bool" where
  "poda s \<longleftrightarrow> n_melhor_solucao s \<le> n_solucao_atual s + 1"

definition quadro :: "ProblemaBacktracking \<Rightarrow> ProblemaBacktracking \<Rightarrow> bool" where
  "quadro s s' \<longleftrightarrow>
     n_solucao_atual s' = n_solucao_atual s \<and>
     length (solucao_atual s') = length (solucao_atual s) \<and>
     take (nat (n_solucao_atual s)) (solucao_atual s') = take (nat (n_solucao_atual s)) (solucao_atual s) \<and>
     pontos s' = pontos s \<and> intervalos s' = intervalos s"

definition melhor_ok :: "ProblemaBacktracking \<Rightarrow> bool" where
  "melhor_ok s \<longleftrightarrow>
     (\<forall>b. melhor_solucao s = Some b \<longrightarrow> length b = length (intervalos s)) \<and>
     (n_melhor_solucao s = INT_MAX \<or>
      (melhor_solucao s \<noteq> None \<and> 0 \<le> n_melhor_solucao s \<and> n_melhor_solucao s < INT_MAX \<and>
       length (melhor s) = nat (n_melhor_solucao s) \<and>
       subseq (melhor s) (intervalos s) \<and> cobre_todos (pontos s) (set (melhor s))))"

definition inv_busca :: "ProblemaBacktracking \<Rightarrow> nat \<Rightarrow> bool" where
  "inv_busca s i \<longleftrightarrow>
     0 \<le> n_solucao_atual s \<and> n_solucao_atual s \<le> int i \<and>
     length (solucao_atual s) = length (intervalos s) \<and>
     subseq (parcial s) (take i (intervalos s)) \<and> melhor_ok s"

definition resultado :: "ProblemaBacktracking \<Rightarrow> nat \<Rightarrow> ProblemaBacktracking \<Rightarrow> bool" where
  "resultado s i s' \<longleftrightarrow>
     melhor_ok s' \<and> n_melhor_solucao s' \<le> n_melhor_solucao s \<and>
     (sem_falhas (alocador s) \<longrightarrow> sem_falhas (alocador s')) \<and>
     (sem_falhas (alocador s) \<and> \<not> cobre_todos (pontos s) (set (parcial s)) \<longrightarrow>
        (\<forall>A. A \<subseteq> set (drop i (intervalos s)) \<and> cobre_todos (pontos s) (set (parcial s) \<union> A)
              \<longrightarrow> n_melhor_solucao s' \<le> n_solucao_atual s + int (card A)))"

definition apos_ramo :: "ProblemaBacktracking \<Rightarrow> nat \<Rightarrow> ProblemaBacktracking \<Rightarrow> bool" where
  "apos_ramo s i u \<longleftrightarrow>
     inv_busca u (Suc i) \<and> parcial u = parcial s \<and> n_solucao_atual u = n_solucao_atual s \<and>
     pontos u = pontos s \<and> intervalos u = intervalos s \<and>
     n_melhor_solucao u \<le> n_melhor_solucao s \<and>
     (sem_falhas (alocador s) \<longrightarrow> sem_falhas (alocador u)) \<and>
     (sem_falhas (alocador s) \<and> \<not> cobre_todos (pontos s) (set (parcial s)) \<longrightarrow>
        (\<forall>A. finite A \<and> intervalos s ! i \<in> A \<and> A - {intervalos s ! i} \<subseteq> set (drop (Suc i) (intervalos s))
              \<and> cobre_todos (pontos s) (set (parcial s) \<union> A)
              \<longrightarrow> n_melhor_solucao u \<le> n_solucao_atual s + int (card A)))"

definition inicio_busca :: "ProblemaBacktracking \<Rightarrow> ProblemaBacktracking" where
  "inicio_busca s = s\<lparr>solucao_atual := c_conteudo (length (intervalos s)) (alocador s),
                       alocador := snd (c_alloc (alocador s)), n_solucao_atual := 0,
                       nos_visitados := 0\<rparr>"

definition tamanho32 :: "Intervalo \<Rightarrow> int" where
  "tamanho32 iv = sint (fim iv - inicio iv)"

definition candidato :: "Problema \<Rightarrow> nat \<Rightarrow> nat \<Rightarrow> bool" where
  "candidato s a i \<longleftrightarrow> cobre (pontos_g s ! a) (intervalos_g s ! i)"

definition preferido32 :: "Problema \<Rightarrow> nat \<Rightarrow> nat \<Rightarrow> bool" where
  "preferido32 s r j \<longleftrightarrow>
     potencial s j < potencial s r \<or>
     (potencial s j = potencial s r \<and>
      (tamanho32 (intervalos_g s ! r) < tamanho32 (intervalos_g s ! j) \<or>
       (tamanho32 (intervalos_g s ! r) = tamanho32 (intervalos_g s ! j) \<and> r \<le> j)))"

definition passo_escolha :: "Problema \<Rightarrow> nat \<Rightarrow> nat \<Rightarrow> int \<times> int \<Rightarrow> int \<times> int" where
  "passo_escolha s a i = (\<lambda>(m, mx).
     if candidato s a i then
       (if potencial s i > mx then (int i, potencial s i)
        else if potencial s i = mx \<and> potencial s i > 0 then
          (if m = - 1 then (int i, mx)
           else if tamanho32 (intervalos_g s ! i) < tamanho32 (intervalos_g s ! nat m)
                then (int i, mx) else (m, mx))
        else (m, mx))
     else (m, mx))"

definition escolhe :: "Problema \<Rightarrow> nat \<Rightarrow> Problema" where
  "escolhe s r = marcar_pontos_cobertos
     (s\<lparr>solucao_g := (solucao_g s)[nat (n_solucao_g s) := intervalos_g s ! r],
        n_solucao_g := n_solucao_g s + 1\<rparr>) (intervalos_g s ! r)"

definition inv_guloso :: "Problema \<Rightarrow> bool" where
  "inv_guloso s \<longleftrightarrow>
     length (pontos_cobertos_g s) = length (pontos_g s) \<and>
     length (solucao_g s) = length (intervalos_g s) \<and>
     0 \<le> n_solucao_g s \<and> n_solucao_g s \<le> int (length (intervalos_g s)) \<and>
     (\<forall>j < length (pontos_g s). pontos_cobertos_g s ! j =
          (if \<exists>iv \<in> set (sol_g s). cobre (pontos_g s ! j) iv then 1 else 0)) \<and>
     n_pontos_cobertos_g s = sum_list (pontos_cobertos_g s) \<and>
     n_solucao_g s \<le> n_pontos_cobertos_g s \<and>
     (\<exists>is. distinct is \<and> (\<forall>i \<in> set is. i < length (intervalos_g s)) \<and>
           sol_g s = map ((!) (intervalos_g s)) is) \<and>
     (\<forall>k < length (sol_g s). \<exists>p \<in> set (pontos_g s).
          cobre p (sol_g s ! k) \<and> (\<forall>j<k. \<not> cobre p (sol_g s ! j)))"

definition inicio_guloso :: "Problema \<Rightarrow> Problema" where
  "inicio_guloso s =
     s\<lparr>pontos_cobertos_g := replicate (length (pontos_g s)) 0,
       n_pontos_cobertos_g := 0,
       solucao_g := c_conteudo (length (intervalos_g s)) (snd (c_alloc (alocador_g s))),
       alocador_g := snd (c_alloc (snd (c_alloc (alocador_g s)))),
       n_solucao_g := 0\<rparr>"

definition nao_piora :: "ProblemaBacktracking \<Rightarrow> ProblemaBacktracking \<Rightarrow> bool" where
  "nao_piora s s' \<longleftrightarrow>
     n_melhor_solucao s' \<le> n_melhor_solucao s \<and>
     (n_melhor_solucao s' = n_melhor_solucao s \<longrightarrow> melhor_solucao s' = melhor_solucao s)"

definition equivalentes :: "ProblemaBacktracking \<Rightarrow> ProblemaBacktracking \<Rightarrow> bool" where
  "equivalentes s t \<longleftrightarrow>
     intervalos t = intervalos s \<and> pontos t = pontos s \<and>
     n_solucao_atual t = n_solucao_atual s \<and> parcial t = parcial s \<and>
     n_melhor_solucao t = n_melhor_solucao s \<and> melhor t = melhor s \<and>
     nos_visitados t = nos_visitados s \<and>
     sem_falhas (alocador s) \<and> sem_falhas (alocador t)"

definition diadico :: "rat \<Rightarrow> bool" where
  "diadico x \<longleftrightarrow> (\<exists>m n. x = of_int m / 2 ^ n)"

section \<open>A small instance\<close>

text \<open>
  One point at position 1 and the intervals \<open>[50, 70]\<close> and \<open>[0, 10]\<close>: in the order of
  the exact solver (longer interval first) and in the order of the greedy solver
  (smaller end first); a point at position 100, which neither interval contains; and an
  allocator whose blocks hold arbitrary cells.
\<close>

definition exemplo_pontos :: "Ponto list" where
  "exemplo_pontos = [\<lparr>id_p = 1, posicao = 1\<rparr>]"

definition exemplo_intervalos :: "Intervalo list" where
  "exemplo_intervalos = [\<lparr>inicio = 50, fim = 70\<rparr>, \<lparr>inicio = 0, fim = 10\<rparr>]"

definition exemplo_intervalos_g :: "Intervalo list" where
  "exemplo_intervalos_g = [\<lparr>inicio = 0, fim = 10\<rparr>, \<lparr>inicio = 50, fim = 70\<rparr>]"

definition exemplo_ponto_longe :: Ponto where
  "exemplo_ponto_longe = \<lparr>id_p = 2, posicao = 100\<rparr>"

definition exemplo_alocador :: "resposta list" where
  "exemplo_alocador =
     [Bloco [\<lparr>inicio = 7, fim = 9\<rparr>, \<lparr>inicio = 3, fim = 4\<rparr>], Bloco [],
      Bloco [\<lparr>inicio = 1, fim = 1\<rparr>]]"

text \<open>
  The scenario \<^verbatim>\<open>MEDIO\<close> of \<^verbatim>\<open>configurar_cenario_medio_backtracking\<close>: its 10 points and
  its 12 intervals, in the order in which \<^verbatim>\<open>qsort\<close> with
  \<^verbatim>\<open>comparar_intervalos_backtracking\<close> leaves them (longer first, then smaller start).
\<close>

definition medio_pontos :: "Ponto list" where
  "medio_pontos =
     [\<lparr>id_p = 1, posicao = 8\<rparr>, \<lparr>id_p = 2, posicao = 16\<rparr>, \<lparr>id_p = 3, posicao = 24\<rparr>,
      \<lparr>id_p = 4, posicao = 32\<rparr>, \<lparr>id_p = 5, posicao = 40\<rparr>, \<lparr>id_p = 6, posicao = 48\<rparr>,
      \<lparr>id_p = 7, posicao = 56\<rparr>, \<lparr>id_p = 8, posicao = 64\<rparr>, \<lparr>id_p = 9, posicao = 72\<rparr>,
      \<lparr>id_p = 10, posicao = 80\<rparr>]"

definition medio_intervalos :: "Intervalo list" where
  "medio_intervalos =
     [\<lparr>inicio = 50, fim = 75\<rparr>, \<lparr>inicio = 5, fim = 28\<rparr>, \<lparr>inicio = 12, fim = 35\<rparr>,
      \<lparr>inicio = 15, fim = 38\<rparr>, \<lparr>inicio = 20, fim = 42\<rparr>, \<lparr>inicio = 60, fim = 82\<rparr>,
      \<lparr>inicio = 0, fim = 20\<rparr>, \<lparr>inicio = 25, fim = 45\<rparr>, \<lparr>inicio = 35, fim = 55\<rparr>,
      \<lparr>inicio = 38, fim = 58\<rparr>, \<lparr>inicio = 48, fim = 68\<rparr>, \<lparr>inicio = 65, fim = 85\<rparr>]"

section \<open>Termination of the search\<close>

lemma verificar_intervalos:
  "verificar_cobertura_parcial s = (r, s') \<Longrightarrow> intervalos s' = intervalos s"
  by (auto simp add: verificar_cobertura_parcial_def Let_def split: prod.splits if_splits)

lemma verificar_intervalos_sym:
  "(r, s') = verificar_cobertura_parcial s \<Longrightarrow> intervalos s' = intervalos s"
  using verificar_intervalos[of s r s'] by simp

lemma copiar_intervalos: "intervalos (copiar_solucao s) = intervalos s"
  by (simp add: copiar_solucao_def Let_def split: prod.splits option.splits)

lemma bt_dom_intervalos:
  "backtracking_recursivo_dom (s, i) \<Longrightarrow> intervalos (backtracking_recursivo s i) = intervalos s"
proof (induction s i rule: backtracking_recursivo.pinduct)
  case (1 problema indice_intervalo)
  show ?case
    apply (subst backtracking_recursivo.psimps[OF 1(1)])
    using 1(2,3)
    apply (auto simp: Let_def n_intervalos_def copiar_intervalos split: prod.splits
                dest!: verificar_intervalos verificar_intervalos_sym)
    done
qed

termination backtracking_recursivo
  apply (relation "measure (\<lambda>(s, i). length (intervalos s) - i)")
    apply (auto simp: n_intervalos_def Let_def bt_dom_intervalos copiar_intervalos
                split: prod.splits if_splits dest!: verificar_intervalos verificar_intervalos_sym)
  done

declare backtracking_recursivo.simps [simp del]
declare obter_proximo_desde.simps [simp del]
declare guloso_laco.simps [code]
declare comprimento_bits.simps [simp del]

section \<open>Lemmas\<close>

lemma length_c_conteudo [simp]: "length (c_conteudo n al) = n"
  by (auto simp add: c_conteudo_def split: list.splits resposta.splits)

lemma pcb_cobre: "ponto_coberto_por_intervalo p iv \<noteq> 0 \<longleftrightarrow> cobre p iv"
  by (simp add: ponto_coberto_por_intervalo_def cobre_def)

lemma pcbb_cobre: "ponto_coberto_por_intervalo_backtracking p iv \<noteq> 0 \<longleftrightarrow> cobre p iv"
  by (simp add: ponto_coberto_por_intervalo_backtracking_def cobre_def)

lemma laco_marcas_Suc: "laco_marcas ps iv (Suc k) tc = passo_marca ps iv k (laco_marcas ps iv k tc)"
  by (simp add: laco_marcas_def)

lemma sum_list_update_int:
  "k < length xs \<Longrightarrow> sum_list (xs[k := x]) = sum_list xs + x - (xs ! k :: int)"
  by (induction xs arbitrary: k) (auto split: nat.splits)

lemma laco_marcas_inv:
  "k \<le> length t \<Longrightarrow>
   length (fst (laco_marcas ps iv k (t, c))) = length t \<and>
   (\<forall>j < length t. fst (laco_marcas ps iv k (t, c)) ! j =
        (if j < k \<and> t ! j = 0 \<and> cobre (ps ! j) iv then 1 else t ! j)) \<and>
   snd (laco_marcas ps iv k (t, c)) - sum_list (fst (laco_marcas ps iv k (t, c))) = c - sum_list t"
proof (induction k)
  case 0
  then show ?case by (simp add: laco_marcas_def)
next
  case (Suc k)
  obtain t' c' where tc: "laco_marcas ps iv k (t, c) = (t', c')" by (cases "laco_marcas ps iv k (t, c)")
  from Suc tc have len: "length t' = length t"
    and nth: "\<forall>j < length t. t' ! j = (if j < k \<and> t ! j = 0 \<and> cobre (ps ! j) iv then 1 else t ! j)"
    and sm: "c' - sum_list t' = c - sum_list t" by auto
  from Suc.prems have k: "k < length t" by simp
  with nth have tk: "t' ! k = t ! k" by simp
  show ?case
    using len nth sm k tk
    by (auto simp: laco_marcas_Suc tc passo_marca_def sum_list_update_int nth_list_update less_Suc_eq)
qed

lemma sum_list_01_le: "(\<forall>x \<in> set t. x = 0 \<or> x = (1::int)) \<Longrightarrow> sum_list t \<le> int (length t)"
  by (induction t) auto

lemma sum_list_01_full:
  "(\<forall>x \<in> set t. x = 0 \<or> x = (1::int)) \<Longrightarrow> sum_list t = int (length t) \<longleftrightarrow> (\<forall>x \<in> set t. x = 1)"
proof (induction t)
  case Nil
  then show ?case by simp
next
  case (Cons a t)
  then have "sum_list t \<le> int (length t)" by (simp add: sum_list_01_le)
  with Cons show ?case by auto
qed

lemma laco_intervalos_inv:
  "length (fst (laco_intervalos ps sol m)) = length ps \<and>
   (\<forall>j < length ps. fst (laco_intervalos ps sol m) ! j =
        (if \<exists>i < m. cobre (ps ! j) (sol ! i) then 1 else 0)) \<and>
   snd (laco_intervalos ps sol m) = sum_list (fst (laco_intervalos ps sol m))"
proof (induction m)
  case 0
  then show ?case by (simp add: laco_intervalos_def sum_list_replicate)
next
  case (Suc m)
  obtain t c where tc: "laco_intervalos ps sol m = (t, c)" by (cases "laco_intervalos ps sol m")
  have step: "laco_intervalos ps sol (Suc m) = laco_marcas ps (sol ! m) (length ps) (t, c)"
    using tc by (simp add: laco_intervalos_def)
  from Suc tc have len: "length t = length ps"
    and nth: "\<forall>j < length ps. t ! j = (if \<exists>i < m. cobre (ps ! j) (sol ! i) then 1 else 0)"
    and sm: "c = sum_list t" by auto
  from len have "length ps \<le> length t" by simp
  note inv_busca = laco_marcas_inv[OF this, of ps "sol ! m" c]
  show ?case
    unfolding step using inv_busca len nth sm
    by (auto simp: less_Suc_eq)
qed

lemma laco_intervalos_full:
  "snd (laco_intervalos ps sol m) = int (length ps) \<longleftrightarrow>
   (\<forall>j < length ps. \<exists>i < m. cobre (ps ! j) (sol ! i))"
proof -
  let ?t = "fst (laco_intervalos ps sol m)"
  note inv_busca = laco_intervalos_inv[of ps sol m]
  have b: "\<forall>x \<in> set ?t. x = 0 \<or> x = 1"
  proof
    fix x assume "x \<in> set ?t"
    then obtain j where "j < length ps" "x = ?t ! j"
      using inv_busca by (auto simp: in_set_conv_nth)
    with inv_busca have "x = (if \<exists>i < m. cobre (ps ! j) (sol ! i) then 1 else 0)" by simp
    then show "x = 0 \<or> x = 1" by (simp split: if_splits)
  qed
  have "snd (laco_intervalos ps sol m) = int (length ps) \<longleftrightarrow> sum_list ?t = int (length ?t)"
    using inv_busca by simp
  also have "\<dots> \<longleftrightarrow> (\<forall>x \<in> set ?t. x = 1)"
    by (rule sum_list_01_full[OF b])
  also have "\<dots> \<longleftrightarrow> (\<forall>j < length ps. ?t ! j = 1)"
  proof -
    have "length ?t = length ps" using inv_busca by simp
    then show ?thesis by (simp add: all_set_conv_all_nth)
  qed
  also have "\<dots> \<longleftrightarrow> (\<forall>j < length ps. \<exists>i < m. cobre (ps ! j) (sol ! i))"
  proof -
    have "\<forall>j < length ps. (?t ! j = 1) = (\<exists>i < m. cobre (ps ! j) (sol ! i))"
      using inv_busca by simp
    then show ?thesis by blast
  qed
  finally show ?thesis .
qed

lemma cobre_todos_take:
  "m \<le> length sol \<Longrightarrow>
   (\<forall>j < length ps. \<exists>i < m. cobre (ps ! j) (sol ! i)) \<longleftrightarrow> cobre_todos ps (set (take m sol))"
proof
  assume m: "m \<le> length sol"
  assume a: "\<forall>j < length ps. \<exists>i < m. cobre (ps ! j) (sol ! i)"
  show "cobre_todos ps (set (take m sol))"
    unfolding cobre_todos_def
  proof
    fix p assume "p \<in> set ps"
    then obtain j where j: "j < length ps" "p = ps ! j" by (auto simp: in_set_conv_nth)
    with a obtain i where i: "i < m" "cobre p (sol ! i)" by blast
    from i(1) m have "sol ! i \<in> set (take m sol)"
      by (metis length_take min.absorb2 nth_mem nth_take)
    with i(2) show "\<exists>iv \<in> set (take m sol). cobre p iv" by blast
  qed
next
  assume m: "m \<le> length sol"
  assume a: "cobre_todos ps (set (take m sol))"
  show "\<forall>j < length ps. \<exists>i < m. cobre (ps ! j) (sol ! i)"
  proof (intro allI impI)
    fix j assume "j < length ps"
    then have "ps ! j \<in> set ps" by simp
    with a obtain iv where iv: "iv \<in> set (take m sol)" "cobre (ps ! j) iv"
      unfolding cobre_todos_def by blast
    from iv(1) m obtain i where "i < m" "iv = sol ! i"
      by (auto simp: in_set_conv_nth)
    with iv(2) show "\<exists>i < m. cobre (ps ! j) (sol ! i)" by blast
  qed
qed

lemma verificar_laco:
  "verificar_cobertura_parcial s =
     (if fst (c_alloc (alocador s)) then
        (if snd (laco_intervalos (pontos s) (solucao_atual s) (nat (n_solucao_atual s))) = n_pontos s
         then 1 else 0, s\<lparr>alocador := snd (c_alloc (alocador s))\<rparr>)
      else (0, s\<lparr>alocador := snd (c_alloc (alocador s))\<rparr>))"
proof -
  have body: "\<And>ps iv. (\<lambda>j (t, c).
       if t ! j = (0::int) then
         (if ponto_coberto_por_intervalo_backtracking (ps ! j) iv \<noteq> 0
          then (t[j := 1], c + 1) else (t, c))
       else (t, c)) = passo_marca ps iv"
    by (intro ext) (auto simp: passo_marca_def pcbb_cobre split: prod.splits)
  show ?thesis
    by (simp add: verificar_cobertura_parcial_def Let_def split_beta body n_pontos_def
        laco_intervalos_def laco_marcas_def)
qed

lemma fold_copia:
  "k \<le> length b \<Longrightarrow> k \<le> length xs \<Longrightarrow>
   fold (\<lambda>i b. b[i := xs ! i]) [0..<k] b = take k xs @ drop k b"
proof (induction k)
  case 0
  then show ?case by simp
next
  case (Suc k)
  then show ?case
    by (simp add: list_update_append take_Suc_conv_app_nth Cons_nth_drop_Suc[symmetric])
qed

lemma verificar_snd:
  "snd (verificar_cobertura_parcial s) = s\<lparr>alocador := snd (c_alloc (alocador s))\<rparr>"
  by (simp add: verificar_laco)

lemma bt_unfold:
  "backtracking_recursivo s i =
     (if para s i then visita s
      else if poda s then backtracking_recursivo (visita s) (i + 1)
      else backtracking_recursivo (desfaz (ramo s i)) (i + 1))"
  apply (subst backtracking_recursivo.simps)
  apply (simp add: Let_def split_beta para_def poda_def visita_def n_intervalos_def
       desfaz_def ramo_def cobre_parcial_def apos_verificar_def inclui_def verificar_snd)
  done

lemma bt_intervalos: "intervalos (backtracking_recursivo s i) = intervalos s"
proof (induction s i rule: backtracking_recursivo.induct)
  case (1 problema indice_intervalo)
  show ?case
    apply (subst backtracking_recursivo.simps)
    using 1
    apply (auto simp: Let_def n_intervalos_def copiar_intervalos split: prod.splits
                dest!: verificar_intervalos verificar_intervalos_sym)
    done
qed

lemma ramo_intervalos: "intervalos (desfaz (ramo s i)) = intervalos s"
  by (simp add: desfaz_def ramo_def bt_intervalos copiar_intervalos apos_verificar_def inclui_def visita_def)

lemma bt_induct [case_names passo]:
  assumes "\<And>s i.
     (\<not> para s i \<Longrightarrow> poda s \<Longrightarrow> P (visita s) (i + 1)) \<Longrightarrow>
     (\<not> para s i \<Longrightarrow> \<not> poda s \<Longrightarrow> \<not> cobre_parcial s i \<Longrightarrow> P (apos_verificar s i) (i + 1)) \<Longrightarrow>
     (\<not> para s i \<Longrightarrow> \<not> poda s \<Longrightarrow> P (desfaz (ramo s i)) (i + 1)) \<Longrightarrow> P s i"
  shows "P s i"
proof (induction "length (intervalos s) - i" arbitrary: s i rule: less_induct)
  case less
  show ?case
  proof (rule assms)
    assume a: "\<not> para s i" "poda s"
    show "P (visita s) (i + 1)"
      by (rule less) (use a in \<open>auto simp add: para_def visita_def n_intervalos_def\<close>)
  next
    assume a: "\<not> para s i" "\<not> poda s" "\<not> cobre_parcial s i"
    show "P (apos_verificar s i) (i + 1)"
      by (rule less) (use a in \<open>auto simp add: para_def apos_verificar_def inclui_def visita_def n_intervalos_def\<close>)
  next
    assume a: "\<not> para s i" "\<not> poda s"
    show "P (desfaz (ramo s i)) (i + 1)"
      by (rule less) (use a in \<open>auto simp add: para_def ramo_intervalos n_intervalos_def\<close>)
  qed
qed

lemma copiar_campos:
  "pontos (copiar_solucao s) = pontos s"
  "solucao_atual (copiar_solucao s) = solucao_atual s"
  "n_solucao_atual (copiar_solucao s) = n_solucao_atual s"
  "nos_visitados (copiar_solucao s) = nos_visitados s"
  by (simp_all add: copiar_solucao_def Let_def split: prod.splits option.splits)

lemma take_menor:
  assumes "take k xs = take k ys" and "j \<le> k"
  shows "take j xs = take j ys"
proof -
  have "take j (take k xs) = take j (take k ys)" using assms(1) by simp
  with assms(2) show ?thesis by (simp add: min_def)
qed

lemma quadro_trans: "quadro s s' \<Longrightarrow> quadro s' s'' \<Longrightarrow> quadro s s''"
  by (auto simp: quadro_def)

lemma quadro_visita: "quadro s (visita s)"
  by (simp add: quadro_def visita_def)

lemma bt_quadro: "quadro s (backtracking_recursivo s i)"
proof (induction s i rule: bt_induct)
  case (passo s i)
  show ?case
  proof (cases "para s i")
    case True
    then show ?thesis by (simp add: bt_unfold quadro_visita)
  next
    case np: False
    show ?thesis
    proof (cases "poda s")
      case True
      with np passo(1) have "quadro (visita s) (backtracking_recursivo s i)"
        by (simp add: bt_unfold)
      with quadro_visita show ?thesis by (rule quadro_trans)
    next
      case npo: False
      have r: "quadro s (desfaz (ramo s i))"
      proof (cases "cobre_parcial s i")
        case True
        then show ?thesis
          by (simp add: quadro_def desfaz_def ramo_def copiar_campos copiar_intervalos
              apos_verificar_def inclui_def visita_def)
      next
        case False
        with np npo passo(2) have q: "quadro (apos_verificar s i) (ramo s i)"
          by (simp add: ramo_def)
        have "take (nat (n_solucao_atual s + 1)) (solucao_atual (ramo s i))
               = take (nat (n_solucao_atual s + 1)) (solucao_atual (apos_verificar s i))"
          using q by (simp add: quadro_def apos_verificar_def inclui_def)
        then have "take (nat (n_solucao_atual s)) (solucao_atual (ramo s i))
               = take (nat (n_solucao_atual s)) (solucao_atual (apos_verificar s i))"
          by (rule take_menor) simp
        then show ?thesis
          using q by (simp add: quadro_def desfaz_def apos_verificar_def inclui_def visita_def)
      qed
      from np npo passo(3) have "quadro (desfaz (ramo s i)) (backtracking_recursivo s i)"
        by (simp add: bt_unfold)
      with r show ?thesis by (rule quadro_trans)
    qed
  qed
qed

lemma melhor_mesmo:
  "melhor_solucao s' = melhor_solucao s \<Longrightarrow> n_melhor_solucao s' = n_melhor_solucao s \<Longrightarrow>
   melhor s' = melhor s"
  by (simp add: melhor_def split: option.splits)

lemma melhor_ok_mesmo:
  "melhor_solucao s' = melhor_solucao s \<Longrightarrow> n_melhor_solucao s' = n_melhor_solucao s \<Longrightarrow>
   intervalos s' = intervalos s \<Longrightarrow> pontos s' = pontos s \<Longrightarrow>
   melhor_ok s' = melhor_ok s"
  using melhor_mesmo[of s' s] by (simp add: melhor_ok_def)

lemma sem_falhas_alloc:
  "sem_falhas al \<Longrightarrow> fst (c_alloc al) \<and> sem_falhas (snd (c_alloc al))"
  by (cases al) (auto simp: sem_falhas_def c_alloc_def)

lemma subseq_take_Suc: "subseq (take i xs) (take (Suc i) xs)"
proof (cases "i < length xs")
  case True
  then show ?thesis by (simp add: take_Suc_conv_app_nth subseq_rev_drop_many)
next
  case False
  then show ?thesis by simp
qed

lemma subseq_take: "subseq (take i xs) xs"
  by (rule prefix_imp_subseq) (rule take_is_prefix)

lemma parcial_apos:
  assumes "0 \<le> n_solucao_atual s" "nat (n_solucao_atual s) < length (solucao_atual s)"
  shows "parcial (apos_verificar s i) = parcial s @ [intervalos s ! i]"
proof -
  have "nat (n_solucao_atual s + 1) = Suc (nat (n_solucao_atual s))"
    using assms(1) by simp
  then show ?thesis
    using assms(2)
    by (simp add: parcial_def apos_verificar_def inclui_def visita_def take_Suc_conv_app_nth)
qed

lemma inv_visita: "inv_busca s i \<Longrightarrow> inv_busca (visita s) (Suc i)"
proof -
  assume a: "inv_busca s i"
  have "melhor_ok (visita s) = melhor_ok s"
    by (rule melhor_ok_mesmo) (simp_all add: visita_def)
  moreover have "parcial (visita s) = parcial s"
    by (simp add: parcial_def visita_def)
  moreover have "subseq (parcial s) (take (Suc i) (intervalos s))"
  proof -
    from a have "subseq (parcial s) (take i (intervalos s))" by (simp add: inv_busca_def)
    then show ?thesis
      by (rule subseq_order.order_trans) (rule subseq_take_Suc)
  qed
  ultimately show ?thesis
    using a by (simp add: inv_busca_def visita_def)
qed

lemma inv_apos:
  assumes "inv_busca s i" "i < length (intervalos s)"
  shows "inv_busca (apos_verificar s i) (Suc i)"
proof -
  from assms have n: "0 \<le> n_solucao_atual s" "nat (n_solucao_atual s) < length (solucao_atual s)"
    by (auto simp: inv_busca_def)
  have p: "parcial (apos_verificar s i) = parcial s @ [intervalos s ! i]"
    by (rule parcial_apos[OF n])
  have "subseq (parcial s @ [intervalos s ! i]) (take i (intervalos s) @ [intervalos s ! i])"
    using assms(1) by (simp add: inv_busca_def)
  moreover have "intervalos (apos_verificar s i) = intervalos s"
    by (simp add: apos_verificar_def inclui_def visita_def)
  ultimately have "subseq (parcial (apos_verificar s i)) (take (Suc i) (intervalos (apos_verificar s i)))"
    using assms(2) by (simp only: p take_Suc_conv_app_nth)
  moreover have "melhor_ok (apos_verificar s i) = melhor_ok s"
    by (rule melhor_ok_mesmo) (simp_all add: apos_verificar_def inclui_def visita_def)
  ultimately show ?thesis
    using assms(1) by (simp add: inv_busca_def apos_verificar_def inclui_def visita_def)
qed

lemma cobre_parcial_iff:
  assumes "inv_busca s i" "i < length (intervalos s)"
  shows "cobre_parcial s i \<longleftrightarrow>
     fst (c_alloc (alocador s)) \<and> cobre_todos (pontos s) (set (parcial s @ [intervalos s ! i]))"
proof -
  from assms have n: "0 \<le> n_solucao_atual s" "nat (n_solucao_atual s) < length (solucao_atual s)"
    by (auto simp: inv_busca_def)
  have p: "parcial (apos_verificar s i) = parcial s @ [intervalos s ! i]"
    by (rule parcial_apos[OF n])
  have le: "nat (n_solucao_atual (inclui s i)) \<le> length (solucao_atual (inclui s i))"
    using n by (simp add: inclui_def)
  have "cobre_parcial s i \<longleftrightarrow> fst (c_alloc (alocador s)) \<and>
      snd (laco_intervalos (pontos s) (solucao_atual (inclui s i)) (nat (n_solucao_atual (inclui s i))))
        = int (length (pontos s))"
    by (simp add: cobre_parcial_def verificar_laco n_pontos_def inclui_def visita_def)
  also have "\<dots> \<longleftrightarrow> fst (c_alloc (alocador s)) \<and>
      cobre_todos (pontos s) (set (take (nat (n_solucao_atual (inclui s i))) (solucao_atual (inclui s i))))"
    by (simp add: laco_intervalos_full cobre_todos_take[OF le])
  also have "take (nat (n_solucao_atual (inclui s i))) (solucao_atual (inclui s i))
      = parcial (apos_verificar s i)"
    by (simp add: parcial_def apos_verificar_def)
  finally show ?thesis by (simp add: p)
qed

lemma copiar_alocador:
  "alocador (copiar_solucao s) =
     (if melhor_solucao s = None then snd (c_alloc (alocador s)) else alocador s)"
  by (simp add: copiar_solucao_def Let_def split_beta split: option.splits)

lemma copiar_efeito:
  assumes "0 \<le> n_solucao_atual s" "nat (n_solucao_atual s) \<le> length (solucao_atual s)"
    "length (solucao_atual s) = length (intervalos s)"
    "\<forall>b. melhor_solucao s = Some b \<longrightarrow> length b = length (intervalos s)"
  shows "(melhor_solucao s = None \<and> \<not> fst (c_alloc (alocador s)) \<and>
          melhor_solucao (copiar_solucao s) = None \<and>
          n_melhor_solucao (copiar_solucao s) = n_melhor_solucao s) \<or>
         (\<exists>b'. melhor_solucao (copiar_solucao s) = Some b' \<and> length b' = length (intervalos s) \<and>
               take (nat (n_solucao_atual s)) b' = parcial s \<and>
               n_melhor_solucao (copiar_solucao s) = n_solucao_atual s)"
proof (cases "melhor_solucao s")
  case None
  show ?thesis
  proof (cases "fst (c_alloc (alocador s))")
    case True
    with None assms show ?thesis
      by (simp add: copiar_solucao_def Let_def split_beta fold_copia parcial_def n_intervalos_def)
  next
    case False
    with None show ?thesis
      by (simp add: copiar_solucao_def Let_def split_beta)
  qed
next
  case (Some b)
  with assms show ?thesis
    by (simp add: copiar_solucao_def Let_def split_beta fold_copia parcial_def)
qed

lemma melhor_ok_limite: "melhor_ok s \<Longrightarrow> n_melhor_solucao s \<le> INT_MAX"
  by (auto simp: melhor_ok_def)

lemma ramo_cobre:
  assumes i: "inv_busca s i" and lt: "i < length (intervalos s)" and np: "\<not> poda s"
    and c: "cobre_parcial s i"
  shows "melhor_ok (ramo s i) \<and> n_melhor_solucao (ramo s i) \<le> n_melhor_solucao s \<and>
         quadro (apos_verificar s i) (ramo s i) \<and>
         (sem_falhas (alocador s) \<longrightarrow>
            sem_falhas (alocador (ramo s i)) \<and> n_melhor_solucao (ramo s i) = n_solucao_atual s + 1)"
proof -
  let ?a = "apos_verificar s i"
  have r: "ramo s i = copiar_solucao ?a" using c by (simp add: ramo_def)
  have ia: "inv_busca ?a (Suc i)" by (rule inv_apos[OF i lt])
  from i lt have n: "0 \<le> n_solucao_atual s" "nat (n_solucao_atual s) < length (solucao_atual s)"
    by (auto simp: inv_busca_def)
  have pa: "parcial ?a = parcial s @ [intervalos s ! i]" by (rule parcial_apos[OF n])
  have na: "n_solucao_atual ?a = n_solucao_atual s + 1"
    by (simp add: apos_verificar_def inclui_def)
  have ca: "cobre_todos (pontos s) (set (parcial ?a))"
    using c cobre_parcial_iff[OF i lt] by (simp add: pa)
  have campos: "intervalos ?a = intervalos s" "pontos ?a = pontos s"
    "melhor_solucao ?a = melhor_solucao s" "n_melhor_solucao ?a = n_melhor_solucao s"
    "alocador ?a = snd (c_alloc (alocador s))"
    by (simp_all add: apos_verificar_def inclui_def visita_def)
  have q: "quadro ?a (ramo s i)"
    by (simp add: r quadro_def copiar_campos copiar_intervalos)
  have lim: "n_melhor_solucao s \<le> INT_MAX" using i by (simp add: inv_busca_def melhor_ok_limite)
  have ef: "(melhor_solucao ?a = None \<and> \<not> fst (c_alloc (alocador ?a)) \<and>
          melhor_solucao (copiar_solucao ?a) = None \<and>
          n_melhor_solucao (copiar_solucao ?a) = n_melhor_solucao ?a) \<or>
         (\<exists>b'. melhor_solucao (copiar_solucao ?a) = Some b' \<and> length b' = length (intervalos ?a) \<and>
               take (nat (n_solucao_atual ?a)) b' = parcial ?a \<and>
               n_melhor_solucao (copiar_solucao ?a) = n_solucao_atual ?a)"
    using ia lt by (intro copiar_efeito) (auto simp: inv_busca_def melhor_ok_def campos)
  then show ?thesis
  proof
    assume f: "melhor_solucao ?a = None \<and> \<not> fst (c_alloc (alocador ?a)) \<and>
          melhor_solucao (copiar_solucao ?a) = None \<and>
          n_melhor_solucao (copiar_solucao ?a) = n_melhor_solucao ?a"
    have "melhor_ok (copiar_solucao ?a) = melhor_ok ?a"
      using f by (intro melhor_ok_mesmo) (simp_all add: copiar_campos copiar_intervalos)
    moreover have "\<not> sem_falhas (alocador s)"
    proof
      assume "sem_falhas (alocador s)"
      then have "sem_falhas (alocador ?a)" by (simp add: campos sem_falhas_alloc)
      with f show False by (simp add: sem_falhas_alloc)
    qed
    ultimately show ?thesis
      using ia f q by (simp add: r inv_busca_def campos)
  next
    assume "\<exists>b'. melhor_solucao (copiar_solucao ?a) = Some b' \<and> length b' = length (intervalos ?a) \<and>
               take (nat (n_solucao_atual ?a)) b' = parcial ?a \<and>
               n_melhor_solucao (copiar_solucao ?a) = n_solucao_atual ?a"
    then obtain b' where b: "melhor_solucao (copiar_solucao ?a) = Some b'"
       "length b' = length (intervalos s)" "take (nat (n_solucao_atual ?a)) b' = parcial ?a"
       "n_melhor_solucao (copiar_solucao ?a) = n_solucao_atual s + 1"
      by (auto simp: campos na)
    have m: "melhor (ramo s i) = parcial ?a"
      using b by (simp add: melhor_def r na)
    have "subseq (parcial ?a) (intervalos s)"
      using ia subseq_take[of "Suc i" "intervalos s"]
      by (auto simp: inv_busca_def campos intro: subseq_order.order_trans)
    moreover have "length (parcial ?a) = nat (n_solucao_atual s + 1)"
      using n unfolding pa by (simp add: parcial_def nat_add_distrib)
    moreover have "n_solucao_atual s + 1 < INT_MAX"
      using np lim by (simp add: poda_def)
    ultimately have "melhor_ok (ramo s i)"
      using b n ca by (simp add: melhor_ok_def m) (simp add: r copiar_campos copiar_intervalos campos)
    moreover have "n_melhor_solucao (ramo s i) \<le> n_melhor_solucao s"
      using np b by (simp add: r poda_def)
    moreover have "sem_falhas (alocador s) \<longrightarrow> sem_falhas (alocador (ramo s i))"
      by (simp add: r copiar_alocador campos sem_falhas_alloc)
    ultimately show ?thesis using q b by (simp add: r)
  qed
qed

lemma inv_desfaz:
  assumes i: "inv_busca s i" and lt: "i < length (intervalos s)"
    and q: "quadro (apos_verificar s i) r" and m: "melhor_ok r"
  shows "inv_busca (desfaz r) (Suc i) \<and> parcial (desfaz r) = parcial s \<and>
         n_solucao_atual (desfaz r) = n_solucao_atual s \<and>
         pontos (desfaz r) = pontos s \<and> intervalos (desfaz r) = intervalos s"
proof -
  let ?a = "apos_verificar s i"
  from i lt have n: "0 \<le> n_solucao_atual s" "nat (n_solucao_atual s) < length (solucao_atual s)"
    by (auto simp: inv_busca_def)
  have campos: "intervalos ?a = intervalos s" "pontos ?a = pontos s"
    "n_solucao_atual ?a = n_solucao_atual s + 1"
    "solucao_atual ?a = (solucao_atual s)[nat (n_solucao_atual s) := intervalos s ! i]"
    by (simp_all add: apos_verificar_def inclui_def visita_def)
  from q have q': "n_solucao_atual r = n_solucao_atual s + 1"
    "length (solucao_atual r) = length (solucao_atual s)"
    "take (nat (n_solucao_atual s + 1)) (solucao_atual r)
       = take (nat (n_solucao_atual s + 1)) (solucao_atual ?a)"
    "pontos r = pontos s" "intervalos r = intervalos s"
    by (simp_all add: quadro_def campos)
  have "take (nat (n_solucao_atual s)) (solucao_atual r)
       = take (nat (n_solucao_atual s)) (solucao_atual ?a)"
    using q'(3) by (rule take_menor) simp
  then have p: "parcial (desfaz r) = parcial s"
    by (simp add: parcial_def desfaz_def q' campos)
  have mo: "melhor_ok (desfaz r) = melhor_ok r"
    by (rule melhor_ok_mesmo) (simp_all add: desfaz_def)
  have "subseq (parcial s) (take (Suc i) (intervalos s))"
  proof -
    from i have "subseq (parcial s) (take i (intervalos s))" by (simp add: inv_busca_def)
    then show ?thesis
      by (rule subseq_order.order_trans) (rule subseq_take_Suc)
  qed
  then have "inv_busca (desfaz r) (Suc i)"
    using i m by (simp add: inv_busca_def p mo) (simp add: desfaz_def q')
  then show ?thesis using p by (simp add: desfaz_def q')
qed

lemma ramo_fatos:
  assumes i: "inv_busca s i" and np: "\<not> para s i" and npo: "\<not> poda s"
    and ih: "\<not> cobre_parcial s i \<Longrightarrow> resultado (apos_verificar s i) (Suc i) (ramo s i)"
  shows "apos_ramo s i (desfaz (ramo s i))"
proof -
  let ?a = "apos_verificar s i"
  let ?x = "intervalos s ! i"
  from np have lt: "i < length (intervalos s)" by (simp add: para_def n_intervalos_def)
  from i lt have n: "0 \<le> n_solucao_atual s" "nat (n_solucao_atual s) < length (solucao_atual s)"
    by (auto simp: inv_busca_def)
  have pa: "parcial ?a = parcial s @ [?x]" by (rule parcial_apos[OF n])
  have campos: "intervalos ?a = intervalos s" "pontos ?a = pontos s"
    "n_solucao_atual ?a = n_solucao_atual s + 1" "n_melhor_solucao ?a = n_melhor_solucao s"
    "alocador ?a = snd (c_alloc (alocador s))"
    by (simp_all add: apos_verificar_def inclui_def visita_def)
  have nm: "n_melhor_solucao (desfaz (ramo s i)) = n_melhor_solucao (ramo s i)"
    "alocador (desfaz (ramo s i)) = alocador (ramo s i)"
    by (simp_all add: desfaz_def)
  show ?thesis
  proof (cases "cobre_parcial s i")
    case True
    note f = ramo_cobre[OF i lt npo True]
    note d = inv_desfaz[OF i lt conjunct1[OF conjunct2[OF conjunct2[OF f]]] conjunct1[OF f]]
    have "\<forall>A. finite A \<and> ?x \<in> A \<longrightarrow> 1 \<le> int (card A)"
      by (auto simp: Suc_le_eq card_gt_0_iff)
    then show ?thesis
      unfolding apos_ramo_def using d f by (auto simp: nm)
  next
    case False
    note r = ih[OF False]
    have q: "quadro ?a (ramo s i)" using False by (simp add: ramo_def bt_quadro)
    from r have mo: "melhor_ok (ramo s i)" by (simp add: resultado_def)
    note d = inv_desfaz[OF i lt q mo]
    have le: "n_melhor_solucao (ramo s i) \<le> n_melhor_solucao s"
      using r by (simp add: resultado_def campos)
    have sf: "sem_falhas (alocador s) \<longrightarrow> sem_falhas (alocador (ramo s i))"
      using r by (simp add: resultado_def campos sem_falhas_alloc)
    have io: "n_melhor_solucao (ramo s i) \<le> n_solucao_atual s + int (card A)"
      if a: "sem_falhas (alocador s)" "finite A" "?x \<in> A"
        "A - {?x} \<subseteq> set (drop (Suc i) (intervalos s))"
        "cobre_todos (pontos s) (set (parcial s) \<union> A)" for A
    proof -
      have "\<not> cobre_todos (pontos s) (set (parcial ?a))"
        using False a(1) cobre_parcial_iff[OF i lt] by (simp add: pa sem_falhas_alloc)
      moreover have "sem_falhas (alocador ?a)" using a(1) by (simp add: campos sem_falhas_alloc)
      moreover have "set (parcial ?a) \<union> (A - {?x}) = set (parcial s) \<union> A"
        using a(3) by (auto simp: pa)
      ultimately have "n_melhor_solucao (ramo s i) \<le> n_solucao_atual ?a + int (card (A - {?x}))"
        using r a(4,5) unfolding resultado_def by (simp add: campos)
      moreover have "int (card (A - {?x})) = int (card A) - 1"
      proof -
        have "0 < card A" using a(2,3) by (auto simp: card_gt_0_iff)
        then show ?thesis using a(2,3) by (simp add: card_Diff_singleton of_nat_diff)
      qed
      ultimately show ?thesis by (simp add: campos)
    qed
    show ?thesis
      unfolding apos_ramo_def using d le sf io by (simp add: nm)
  qed
qed

lemma resultado_para:
  assumes i: "inv_busca s i" and p: "para s i"
  shows "resultado s i (visita s)"
proof -
  have mo: "melhor_ok (visita s) = melhor_ok s"
    by (rule melhor_ok_mesmo) (simp_all add: visita_def)
  have "n_melhor_solucao s \<le> n_solucao_atual s + int (card A)"
    if a: "\<not> cobre_todos (pontos s) (set (parcial s))" "A \<subseteq> set (drop i (intervalos s))"
      "cobre_todos (pontos s) (set (parcial s) \<union> A)" for A
  proof (cases "n_intervalos s \<le> int i")
    case True
    with a(2) have "A = {}" by (simp add: n_intervalos_def)
    with a(1,3) show ?thesis by simp
  next
    case False
    with p have "n_melhor_solucao s \<le> n_solucao_atual s" by (simp add: para_def)
    then show ?thesis by simp
  qed
  then show ?thesis
    using i unfolding resultado_def by (simp add: mo inv_busca_def) (simp add: visita_def)
qed

lemma drop_cabeca:
  assumes "i < length xs" "A \<subseteq> set (drop i xs)"
  shows "A \<subseteq> set (drop (Suc i) xs) \<or> (finite A \<and> xs ! i \<in> A \<and> A - {xs ! i} \<subseteq> set (drop (Suc i) xs))"
proof -
  have d: "drop i xs = xs ! i # drop (Suc i) xs"
    using assms(1) by (simp add: Cons_nth_drop_Suc)
  have "finite A" using assms(2) by (rule finite_subset) simp
  then show ?thesis using assms(2) unfolding d by auto
qed

lemma resultado_poda:
  assumes i: "inv_busca s i" and np: "\<not> para s i" and po: "poda s"
    and r: "resultado (visita s) (Suc i) s'"
  shows "resultado s i s'"
proof -
  from np have lt: "i < length (intervalos s)" by (simp add: para_def n_intervalos_def)
  have campos: "pontos (visita s) = pontos s" "intervalos (visita s) = intervalos s"
    "parcial (visita s) = parcial s" "n_solucao_atual (visita s) = n_solucao_atual s"
    "n_melhor_solucao (visita s) = n_melhor_solucao s" "alocador (visita s) = alocador s"
    by (simp_all add: visita_def parcial_def)
  have le: "n_melhor_solucao s' \<le> n_melhor_solucao s"
    using r by (simp add: resultado_def campos)
  have "n_melhor_solucao s' \<le> n_solucao_atual s + int (card A)"
    if a: "sem_falhas (alocador s)" "\<not> cobre_todos (pontos s) (set (parcial s))"
      "A \<subseteq> set (drop i (intervalos s))"
      "cobre_todos (pontos s) (set (parcial s) \<union> A)" for A
  proof -
    from drop_cabeca[OF lt a(3)] show ?thesis
    proof
      assume "A \<subseteq> set (drop (Suc i) (intervalos s))"
      with r a show ?thesis unfolding resultado_def by (simp add: campos)
    next
      assume "finite A \<and> intervalos s ! i \<in> A \<and> A - {intervalos s ! i} \<subseteq> set (drop (Suc i) (intervalos s))"
      then have "0 < card A" by (auto simp: card_gt_0_iff)
      with le po show ?thesis by (simp add: poda_def)
    qed
  qed
  then show ?thesis
    using r unfolding resultado_def by (simp add: campos)
qed

lemma resultado_incluir:
  assumes lt: "i < length (intervalos s)"
    and u: "apos_ramo s i u" and r: "resultado u (Suc i) s'"
  shows "resultado s i s'"
proof -
  from u have campos: "parcial u = parcial s" "n_solucao_atual u = n_solucao_atual s"
    "pontos u = pontos s" "intervalos u = intervalos s"
    and le: "n_melhor_solucao u \<le> n_melhor_solucao s"
    and sf: "sem_falhas (alocador s) \<longrightarrow> sem_falhas (alocador u)"
    by (simp_all add: apos_ramo_def)
  have le': "n_melhor_solucao s' \<le> n_melhor_solucao u"
    using r by (simp add: resultado_def)
  have "n_melhor_solucao s' \<le> n_solucao_atual s + int (card A)"
    if a: "sem_falhas (alocador s)" "\<not> cobre_todos (pontos s) (set (parcial s))"
      "A \<subseteq> set (drop i (intervalos s))"
      "cobre_todos (pontos s) (set (parcial s) \<union> A)" for A
  proof -
    from drop_cabeca[OF lt a(3)] show ?thesis
    proof
      assume "A \<subseteq> set (drop (Suc i) (intervalos s))"
      with r a sf show ?thesis unfolding resultado_def by (simp add: campos)
    next
      assume "finite A \<and> intervalos s ! i \<in> A \<and> A - {intervalos s ! i} \<subseteq> set (drop (Suc i) (intervalos s))"
      with u a have "n_melhor_solucao u \<le> n_solucao_atual s + int (card A)"
        unfolding apos_ramo_def by blast
      with le' show ?thesis by simp
    qed
  qed
  then show ?thesis
    using r sf le le' unfolding resultado_def by (simp add: campos)
qed

lemma bt_resultado: "inv_busca s i \<Longrightarrow> resultado s i (backtracking_recursivo s i)"
proof (induction s i rule: bt_induct)
  case (passo s i)
  note i = passo.prems
  show ?case
  proof (cases "para s i")
    case True
    then show ?thesis by (simp add: bt_unfold resultado_para[OF i])
  next
    case np: False
    then have lt: "i < length (intervalos s)" by (simp add: para_def n_intervalos_def)
    show ?thesis
    proof (cases "poda s")
      case True
      have "resultado (visita s) (Suc i) (backtracking_recursivo (visita s) (Suc i))"
        using passo.IH(1)[OF np True] inv_visita[OF i] by simp
      then have "resultado s i (backtracking_recursivo (visita s) (Suc i))"
        by (rule resultado_poda[OF i np True])
      then show ?thesis using np True by (simp add: bt_unfold)
    next
      case npo: False
      have "resultado (apos_verificar s i) (Suc i) (ramo s i)" if c: "\<not> cobre_parcial s i"
        using passo.IH(2)[OF np npo c] inv_apos[OF i lt] c by (simp add: ramo_def)
      then have u: "apos_ramo s i (desfaz (ramo s i))"
        by (rule ramo_fatos[OF i np npo])
      then have "inv_busca (desfaz (ramo s i)) (Suc i)" by (simp add: apos_ramo_def)
      then have "resultado (desfaz (ramo s i)) (Suc i) (backtracking_recursivo (desfaz (ramo s i)) (Suc i))"
        using passo.IH(3)[OF np npo] by simp
      then have "resultado s i (backtracking_recursivo (desfaz (ramo s i)) (Suc i))"
        by (rule resultado_incluir[OF lt u])
      then show ?thesis using np npo by (simp add: bt_unfold)
    qed
  qed
qed

lemma subseq_conjunto:
  assumes "subseq xs ys"
  shows "set xs \<subseteq> set ys"
proof
  fix x assume "x \<in> set xs"
  from list_emb_set[OF assms this] show "x \<in> set ys" by blast
qed

lemma resolver_bt_falha:
  "\<not> fst (c_alloc (alocador s)) \<Longrightarrow>
   resolver_backtracking s =
     (\<lparr>n_solucao_m = 0, nos_visitados_m = 0\<rparr>,
      s\<lparr>solucao_atual := [], alocador := snd (c_alloc (alocador s))\<rparr>)"
  by (simp add: resolver_backtracking_def split_beta)

lemma resolver_bt_sucesso:
  "fst (c_alloc (alocador s)) \<Longrightarrow>
   resolver_backtracking s =
     (\<lparr>n_solucao_m = n_melhor_solucao (backtracking_recursivo (inicio_busca s) 0),
       nos_visitados_m = nos_visitados (backtracking_recursivo (inicio_busca s) 0)\<rparr>,
      backtracking_recursivo (inicio_busca s) 0)"
  by (simp add: resolver_backtracking_def split_beta Let_def inicio_busca_def n_intervalos_def)

lemma inv_inicio: "melhor_ok s \<Longrightarrow> inv_busca (inicio_busca s) 0"
proof -
  assume m: "melhor_ok s"
  have "melhor_ok (inicio_busca s) = melhor_ok s"
    by (rule melhor_ok_mesmo) (simp_all add: inicio_busca_def)
  with m show ?thesis
    by (simp add: inv_busca_def parcial_def) (simp add: inicio_busca_def)
qed

lemma melhor_ok_preparado:
  "n_melhor_solucao s = INT_MAX \<Longrightarrow> melhor_solucao s = None \<Longrightarrow> melhor_ok s"
  by (simp add: melhor_ok_def)

lemma busca_inicio:
  assumes m: "melhor_ok s"
  defines "s' \<equiv> backtracking_recursivo (inicio_busca s) 0"
  shows "melhor_ok s'" "n_melhor_solucao s' \<le> n_melhor_solucao s"
    "pontos s' = pontos s" "intervalos s' = intervalos s" "n_solucao_atual s' = 0"
    "sem_falhas (alocador s) \<Longrightarrow> pontos s \<noteq> [] \<Longrightarrow> A \<subseteq> set (intervalos s) \<Longrightarrow>
       cobre_todos (pontos s) A \<Longrightarrow> n_melhor_solucao s' \<le> int (card A)"
proof -
  note r = bt_resultado[OF inv_inicio[OF m], folded s'_def]
  note q = bt_quadro[of "inicio_busca s" 0, folded s'_def]
  show "melhor_ok s'" using r by (simp add: resultado_def)
  show "n_melhor_solucao s' \<le> n_melhor_solucao s"
    using r by (simp add: resultado_def inicio_busca_def)
  show "pontos s' = pontos s" "intervalos s' = intervalos s" "n_solucao_atual s' = 0"
    using q by (simp_all add: quadro_def inicio_busca_def)
  assume a: "sem_falhas (alocador s)" "pontos s \<noteq> []" "A \<subseteq> set (intervalos s)"
       "cobre_todos (pontos s) A"
  have "sem_falhas (alocador (inicio_busca s))"
    using a(1) by (simp add: inicio_busca_def sem_falhas_alloc)
  moreover have "\<not> cobre_todos (pontos (inicio_busca s)) (set (parcial (inicio_busca s)))"
    using a(2) by (simp add: cobre_todos_def parcial_def inicio_busca_def)
  moreover have "A \<subseteq> set (drop 0 (intervalos (inicio_busca s)))"
    "cobre_todos (pontos (inicio_busca s)) (set (parcial (inicio_busca s)) \<union> A)"
    using a(3,4) by (simp_all add: inicio_busca_def parcial_def)
  ultimately have "n_melhor_solucao s' \<le> n_solucao_atual (inicio_busca s) + int (card A)"
    using r unfolding resultado_def by blast
  then show "n_melhor_solucao s' \<le> int (card A)" by (simp add: inicio_busca_def)
qed

lemma exemplo_cobre: "cobre_todos exemplo_pontos (set exemplo_intervalos)"
  by (simp add: cobre_todos_def cobre_def exemplo_pontos_def exemplo_intervalos_def)

lemma fold_conta:
  "fold (\<lambda>j c. if P j then c + 1 else c) xs (c::int) = c + int (length (filter P xs))"
  by (induction xs arbitrary: c) auto

lemma potencial_laco:
  "fold (\<lambda>j c. if pontos_cobertos_g s ! j = 0 then
                 (if ponto_coberto_por_intervalo (pontos_g s ! j) (intervalos_g s ! i) \<noteq> 0
                  then c + 1 else c)
               else c) [0..<nat (n_pontos_g s)] (0::int) = potencial s i"
proof -
  have "(\<lambda>j c. if pontos_cobertos_g s ! j = 0 then
                 (if ponto_coberto_por_intervalo (pontos_g s ! j) (intervalos_g s ! i) \<noteq> 0
                  then c + 1 else c)
               else c)
      = (\<lambda>j c. if pontos_cobertos_g s ! j = 0 \<and> cobre (pontos_g s ! j) (intervalos_g s ! i)
                then c + 1 else (c::int))"
    by (intro ext) (simp add: pcb_cobre)
  then show ?thesis
    by (simp add: fold_conta potencial_def n_pontos_g_def)
qed

lemma sint_sub_representavel:
  assumes "tamanho_representavel iv"
  shows "sint (fim iv - inicio iv) = tamanho iv"
  using assms
  by (simp add: tamanho_representavel_def tamanho_def sint_word_ariths signed_take_bit_int_eq_self)

lemma marcar_laco:
  "marcar_pontos_cobertos s iv =
     s\<lparr>pontos_cobertos_g := fst (laco_marcas (pontos_g s) iv (length (pontos_g s))
                                   (pontos_cobertos_g s, n_pontos_cobertos_g s)),
       n_pontos_cobertos_g := snd (laco_marcas (pontos_g s) iv (length (pontos_g s))
                                   (pontos_cobertos_g s, n_pontos_cobertos_g s))\<rparr>"
proof -
  let ?f = "\<lambda>i problema.
             if pontos_cobertos_g problema ! i = 0 then
               (if ponto_coberto_por_intervalo (pontos_g problema ! i) iv \<noteq> 0
                then problema\<lparr>pontos_cobertos_g := (pontos_cobertos_g problema)[i := 1],
                              n_pontos_cobertos_g := n_pontos_cobertos_g problema + 1\<rparr>
                else problema)
             else problema"
  have "fold ?f xs s =
      s\<lparr>pontos_cobertos_g := fst (fold (passo_marca (pontos_g s) iv) xs
                                    (pontos_cobertos_g s, n_pontos_cobertos_g s)),
        n_pontos_cobertos_g := snd (fold (passo_marca (pontos_g s) iv) xs
                                    (pontos_cobertos_g s, n_pontos_cobertos_g s))\<rparr>" for xs
  proof (induction xs arbitrary: s)
    case Nil
    show ?case by simp
  next
    case (Cons x xs)
    have p: "pontos_g (?f x s) = pontos_g s" by simp
    have "(pontos_cobertos_g (?f x s), n_pontos_cobertos_g (?f x s))
        = passo_marca (pontos_g s) iv x (pontos_cobertos_g s, n_pontos_cobertos_g s)"
      by (simp add: passo_marca_def pcb_cobre)
    then show ?case
      by (simp only: fold_simps Cons.IH[of "?f x s"] p) (simp add: pcb_cobre)
  qed
  then show ?thesis
    by (simp add: marcar_pontos_cobertos_def laco_marcas_def n_pontos_g_def)
qed

lemma obter_desde:
  "(obter_proximo_desde s i = - 1 \<and> (\<forall>j. i \<le> j \<and> j < length (pontos_g s) \<longrightarrow> pontos_cobertos_g s ! j \<noteq> 0)) \<or>
   (\<exists>k. obter_proximo_desde s i = int k \<and> i \<le> k \<and> k < length (pontos_g s) \<and>
        pontos_cobertos_g s ! k = 0 \<and> (\<forall>j. i \<le> j \<and> j < k \<longrightarrow> pontos_cobertos_g s ! j \<noteq> 0))"
proof (induction s i rule: obter_proximo_desde.induct)
  case (1 s i)
  show ?case
  proof (cases "int i < n_pontos_g s")
    case False
    then show ?thesis
      by (subst obter_proximo_desde.simps) (simp add: n_pontos_g_def)
  next
    case lt: True
    show ?thesis
    proof (cases "pontos_cobertos_g s ! i = 0")
      case True
      with lt show ?thesis
        by (subst obter_proximo_desde.simps, subst (2) obter_proximo_desde.simps)
           (auto simp add: n_pontos_g_def)
    next
      case False
      have e: "obter_proximo_desde s i = obter_proximo_desde s (i + 1)"
        using lt False by (subst obter_proximo_desde.simps) simp
      have h: "j = i \<or> Suc i \<le> j" if "i \<le> j" for j using that by auto
      from 1[OF lt False] show ?thesis
      proof (elim disjE exE conjE)
        assume a: "obter_proximo_desde s (i + 1) = - 1"
          "\<forall>j. i + 1 \<le> j \<and> j < length (pontos_g s) \<longrightarrow> pontos_cobertos_g s ! j \<noteq> 0"
        have "\<forall>j. i \<le> j \<and> j < length (pontos_g s) \<longrightarrow> pontos_cobertos_g s ! j \<noteq> 0"
          using a(2) False h by (metis Suc_eq_plus1)
        with a(1) show ?thesis by (simp add: e)
      next
        fix k
        assume a: "obter_proximo_desde s (i + 1) = int k" "i + 1 \<le> k" "k < length (pontos_g s)"
          "pontos_cobertos_g s ! k = 0" "\<forall>j. i + 1 \<le> j \<and> j < k \<longrightarrow> pontos_cobertos_g s ! j \<noteq> 0"
        have "\<forall>j. i \<le> j \<and> j < k \<longrightarrow> pontos_cobertos_g s ! j \<noteq> 0"
          using a(5) False h by (metis Suc_eq_plus1)
        with a show ?thesis by (auto simp: e)
      qed
    qed
  qed
qed

lemma encontrar_fold:
  "encontrar_melhor_intervalo s a =
     fst (fold (passo_escolha s a) [0..<length (intervalos_g s)] (- 1, 0))"
proof -
  have "(\<lambda>i (melhor_intervalo, max_pontos_cobertos).
             if ponto_coberto_por_intervalo (pontos_g s ! a) (intervalos_g s ! i) \<noteq> 0 then
               (let pontos_cobertos_potencial =
                      fold (\<lambda>j c.
                              if pontos_cobertos_g s ! j = 0 then
                                (if ponto_coberto_por_intervalo (pontos_g s ! j)
                                      (intervalos_g s ! i) \<noteq> 0
                                 then c + 1 else c)
                              else c)
                        [0..<nat (n_pontos_g s)] (0::int)
                in if pontos_cobertos_potencial > max_pontos_cobertos
                   then (int i, pontos_cobertos_potencial)
                   else if pontos_cobertos_potencial = max_pontos_cobertos
                           \<and> pontos_cobertos_potencial > 0
                   then
                     (if melhor_intervalo = - 1 then (int i, max_pontos_cobertos)
                      else
                        (let tamanho_melhor =
                               fim (intervalos_g s ! nat melhor_intervalo)
                               - inicio (intervalos_g s ! nat melhor_intervalo);
                             tamanho_atual =
                               fim (intervalos_g s ! i) - inicio (intervalos_g s ! i)
                         in if sint tamanho_atual < sint tamanho_melhor
                            then (int i, max_pontos_cobertos)
                            else (melhor_intervalo, max_pontos_cobertos)))
                   else (melhor_intervalo, max_pontos_cobertos))
             else (melhor_intervalo, max_pontos_cobertos)) = passo_escolha s a"
    by (intro ext) (simp add: passo_escolha_def potencial_laco pcb_cobre candidato_def tamanho32_def Let_def
          split: prod.splits)
  then show ?thesis
    by (simp add: encontrar_melhor_intervalo_def Let_def n_intervalos_g_def)
qed

lemma potencial_candidato:
  assumes "a < length (pontos_g s)" "pontos_cobertos_g s ! a = 0" "candidato s a i"
  shows "0 < potencial s i"
proof -
  have "a \<in> set (filter (\<lambda>j. pontos_cobertos_g s ! j = 0 \<and> cobre (pontos_g s ! j) (intervalos_g s ! i))
                    [0..<length (pontos_g s)])"
    using assms by (simp add: candidato_def)
  then show ?thesis
    unfolding potencial_def by (simp only: of_nat_0_less_iff length_pos_if_in_set)
qed

lemma preferido32_refl: "preferido32 s r r"
  by (simp add: preferido32_def)

lemma escolha_inv:
  assumes a: "a < length (pontos_g s)" "pontos_cobertos_g s ! a = 0"
  shows "((\<forall>j<k. \<not> candidato s a j) \<and> fold (passo_escolha s a) [0..<k] (- 1, 0) = (- 1, 0)) \<or>
         (\<exists>r<k. candidato s a r \<and> fold (passo_escolha s a) [0..<k] (- 1, 0) = (int r, potencial s r) \<and>
               (\<forall>j<k. candidato s a j \<longrightarrow> preferido32 s r j))"
proof (induction k)
  case 0
  show ?case by simp
next
  case (Suc k)
  have step: "fold (passo_escolha s a) [0..<Suc k] (- 1, 0)
        = passo_escolha s a k (fold (passo_escolha s a) [0..<k] (- 1, 0))"
    by simp
  from Suc show ?case
  proof (elim disjE exE conjE)
    assume n: "\<forall>j<k. \<not> candidato s a j" "fold (passo_escolha s a) [0..<k] (- 1, 0) = (- 1, 0)"
    show ?thesis
    proof (cases "candidato s a k")
      case True
      note pos = potencial_candidato[OF a True]
      have "fold (passo_escolha s a) [0..<Suc k] (- 1, 0) = (int k, potencial s k)"
        unfolding step n(2) using True pos by (simp add: passo_escolha_def)
      moreover have "\<forall>j<Suc k. candidato s a j \<longrightarrow> preferido32 s k j"
        using n(1) by (auto simp: less_Suc_eq preferido32_refl)
      ultimately show ?thesis using True by blast
    next
      case False
      have "fold (passo_escolha s a) [0..<Suc k] (- 1, 0) = (- 1, 0)"
        unfolding step n(2) using False by (simp add: passo_escolha_def)
      moreover have "\<forall>j<Suc k. \<not> candidato s a j" using n(1) False by (auto simp: less_Suc_eq)
      ultimately show ?thesis by blast
    qed
  next
    fix r
    assume r: "r < k" "candidato s a r"
      "fold (passo_escolha s a) [0..<k] (- 1, 0) = (int r, potencial s r)"
      "\<forall>j<k. candidato s a j \<longrightarrow> preferido32 s r j"
    show ?thesis
    proof (cases "candidato s a k")
      case False
      have "fold (passo_escolha s a) [0..<Suc k] (- 1, 0) = (int r, potencial s r)"
        unfolding step r(3) using False by (simp add: passo_escolha_def)
      moreover have "\<forall>j<Suc k. candidato s a j \<longrightarrow> preferido32 s r j"
        using r(4) False by (auto simp: less_Suc_eq)
      ultimately show ?thesis using r(1,2) less_Suc_eq by blast
    next
      case True
      note pos = potencial_candidato[OF a True]
      show ?thesis
      proof (cases "preferido32 s r k")
        case pr: True
        have "fold (passo_escolha s a) [0..<Suc k] (- 1, 0) = (int r, potencial s r)"
          unfolding step r(3) using True pr r(1) pos
          by (auto simp add: passo_escolha_def preferido32_def)
        moreover have "\<forall>j<Suc k. candidato s a j \<longrightarrow> preferido32 s r j"
          using r(4) pr by (auto simp: less_Suc_eq)
        ultimately show ?thesis using r(1,2) less_Suc_eq by blast
      next
        case npr: False
        have "fold (passo_escolha s a) [0..<Suc k] (- 1, 0) = (int k, potencial s k)"
          unfolding step r(3) using True npr r(1) pos
          by (auto simp add: passo_escolha_def preferido32_def)
        moreover have "preferido32 s k j" if "j < k" "candidato s a j" for j
          using r(4) that npr r(1) by (fastforce simp: preferido32_def)
        then have "\<forall>j<Suc k. candidato s a j \<longrightarrow> preferido32 s k j"
          by (auto simp: less_Suc_eq preferido32_refl)
        ultimately show ?thesis using True by blast
      qed
    qed
  qed
qed

lemma encontrar_resultado:
  assumes "a < length (pontos_g s)" "pontos_cobertos_g s ! a = 0"
  shows "((\<forall>j<length (intervalos_g s). \<not> candidato s a j) \<and> encontrar_melhor_intervalo s a = - 1) \<or>
         (\<exists>r<length (intervalos_g s). candidato s a r \<and> encontrar_melhor_intervalo s a = int r \<and>
               (\<forall>j<length (intervalos_g s). candidato s a j \<longrightarrow> preferido32 s r j))"
  using escolha_inv[OF assms, of "length (intervalos_g s)"]
  by (auto simp: encontrar_fold)

lemma obter_primeiro:
  assumes "primeiro_descoberto s a"
  shows "obter_proximo_ponto_nao_coberto s = int a"
proof -
  from assms have a: "a < length (pontos_g s)" "pontos_cobertos_g s ! a = 0"
    "\<forall>j<a. pontos_cobertos_g s ! j \<noteq> 0" by (simp_all add: primeiro_descoberto_def)
  from obter_desde[of s 0] show ?thesis
  proof (elim disjE exE conjE)
    assume "\<forall>j. 0 \<le> j \<and> j < length (pontos_g s) \<longrightarrow> pontos_cobertos_g s ! j \<noteq> 0"
    with a(1,2) show ?thesis by blast
  next
    fix k
    assume k: "obter_proximo_desde s 0 = int k" "k < length (pontos_g s)"
      "pontos_cobertos_g s ! k = 0" "\<forall>j. 0 \<le> j \<and> j < k \<longrightarrow> pontos_cobertos_g s ! j \<noteq> 0"
    have "\<not> a < k" using k(4) a(2) by auto
    moreover have "\<not> k < a" using a(3) k(3) by auto
    ultimately have "k = a" by simp
    with k(1) show ?thesis by (simp add: obter_proximo_ponto_nao_coberto_def)
  qed
qed

lemma obter_nenhum:
  assumes "\<forall>j<length (pontos_g s). pontos_cobertos_g s ! j \<noteq> 0"
  shows "obter_proximo_ponto_nao_coberto s = - 1"
proof -
  from obter_desde[of s 0] show ?thesis
  proof (elim disjE exE conjE)
    assume "obter_proximo_desde s 0 = - 1"
    then show ?thesis by (simp add: obter_proximo_ponto_nao_coberto_def)
  next
    fix k assume "k < length (pontos_g s)" "pontos_cobertos_g s ! k = 0"
    with assms show ?thesis by blast
  qed
qed

lemma existe_primeiro:
  assumes "\<exists>j<length (pontos_g s). pontos_cobertos_g s ! j = 0"
  shows "\<exists>a. primeiro_descoberto s a"
proof -
  let ?P = "\<lambda>j. j < length (pontos_g s) \<and> pontos_cobertos_g s ! j = 0"
  from assms obtain j where "?P j" by blast
  then have "?P (LEAST j. ?P j)" by (rule LeastI)
  moreover have "\<forall>j<(LEAST j. ?P j). pontos_cobertos_g s ! j \<noteq> 0"
  proof (intro allI impI)
    fix j assume l: "j < (LEAST j. ?P j)"
    then have "\<not> ?P j" by (rule not_less_Least)
    moreover have "j < length (pontos_g s)" using l \<open>?P (LEAST j. ?P j)\<close> by simp
    ultimately show "pontos_cobertos_g s ! j \<noteq> 0" by simp
  qed
  ultimately show ?thesis unfolding primeiro_descoberto_def by blast
qed

lemma iteracao_escolhe:
  assumes "todos_pontos_cobertos s = 0" "primeiro_descoberto s a"
    "encontrar_melhor_intervalo s a = int r"
  shows "guloso_iteracao s = Some (escolhe s r)"
  using assms by (simp add: guloso_iteracao_def obter_primeiro Let_def escolhe_def)

lemma iteracao_nenhum:
  assumes "primeiro_descoberto s a" "encontrar_melhor_intervalo s a = - 1"
  shows "guloso_iteracao s = None"
  using assms by (simp add: guloso_iteracao_def obter_primeiro Let_def)

lemma sum_list_estrito:
  "length xs = length ys \<Longrightarrow> \<forall>j<length xs. xs ! j \<le> (ys ! j :: int) \<Longrightarrow>
   k < length xs \<Longrightarrow> xs ! k < ys ! k \<Longrightarrow> sum_list xs < sum_list ys"
proof (induction xs ys arbitrary: k rule: list_induct2)
  case Nil
  then show ?case by simp
next
  case (Cons x xs y ys)
  have le: "sum_list xs \<le> sum_list ys"
  proof -
    have "\<forall>j<length xs. xs ! j \<le> ys ! j" using Cons.prems(1) by auto
    with Cons.hyps show ?thesis
    proof (induction xs ys rule: list_induct2)
      case Nil then show ?case by simp
    next
      case (Cons a as b bs)
      then have "a \<le> b" "\<forall>j<length as. as ! j \<le> bs ! j" by auto
      with Cons.IH show ?case by simp 
    qed
  qed
  show ?case
  proof (cases k)
    case 0
    with Cons.prems le show ?thesis by simp
  next
    case (Suc k')
    have "\<forall>j<length xs. xs ! j \<le> ys ! j" using Cons.prems(1) by auto
    with Cons.IH[of k'] Cons.prems Suc have "sum_list xs < sum_list ys" by simp
    moreover have "x \<le> y" using Cons.prems(1) by auto
    ultimately show ?thesis by simp
  qed
qed

lemma distintos_limite:
  assumes "distinct is" "\<forall>i \<in> set is. i < n"
  shows "length is \<le> n"
proof -
  have "set is \<subseteq> {..<n}" using assms(2) by auto
  then have "card (set is) \<le> card {..<n}" by (intro card_mono) simp_all
  with assms(1) show ?thesis by (simp add: distinct_card)
qed

lemma escolhe_inv:
  assumes i: "inv_guloso s" and a: "primeiro_descoberto s a"
    and r: "r < length (intervalos_g s)" "candidato s a r"
  shows "inv_guloso (escolhe s r) \<and>
         n_pontos_cobertos_g s < n_pontos_cobertos_g (escolhe s r) \<and>
         n_solucao_g (escolhe s r) = n_solucao_g s + 1 \<and>
         sol_g (escolhe s r) = sol_g s @ [intervalos_g s ! r] \<and>
         pontos_g (escolhe s r) = pontos_g s \<and> intervalos_g (escolhe s r) = intervalos_g s \<and>
         alocador_g (escolhe s r) = alocador_g s"
proof -
  let ?x = "intervalos_g s ! r"
  let ?ps = "pontos_g s"
  let ?fl = "pontos_cobertos_g s"
  let ?L = "laco_marcas ?ps ?x (length ?ps) (?fl, n_pontos_cobertos_g s)"
  from i have len: "length ?fl = length ?ps" "length (solucao_g s) = length (intervalos_g s)"
    and ns: "0 \<le> n_solucao_g s" "n_solucao_g s \<le> int (length (intervalos_g s))"
    and fl: "\<forall>j < length ?ps. ?fl ! j = (if \<exists>iv \<in> set (sol_g s). cobre (?ps ! j) iv then 1 else 0)"
    and nc: "n_pontos_cobertos_g s = sum_list ?fl" "n_solucao_g s \<le> n_pontos_cobertos_g s"
    and b: "\<forall>k < length (sol_g s). \<exists>p \<in> set ?ps.
          cobre p (sol_g s ! k) \<and> (\<forall>j<k. \<not> cobre p (sol_g s ! j))"
    by (simp_all add: inv_guloso_def)
  from i obtain "is" where "is": "distinct is" "\<forall>i \<in> set is. i < length (intervalos_g s)"
    "sol_g s = map ((!) (intervalos_g s)) is"
    unfolding inv_guloso_def by blast
  from a have a': "a < length ?ps" "?fl ! a = 0" by (simp_all add: primeiro_descoberto_def)
  have nao: "\<not> (\<exists>iv \<in> set (sol_g s). cobre (?ps ! a) iv)"
    using fl a' by (auto split: if_splits)
  have rn: "r \<notin> set is"
  proof
    assume "r \<in> set is"
    then have "?x \<in> set (sol_g s)" by (simp add: "is"(3))
    with nao r(2) show False by (auto simp: candidato_def)
  qed
  have lsol: "length (sol_g s) = nat (n_solucao_g s)"
    using ns len by (simp add: sol_g_def)
  have "length (r # is) \<le> length (intervalos_g s)"
    by (rule distintos_limite) (use "is" rn r(1) in auto)
  moreover have "length is = nat (n_solucao_g s)" using lsol by (simp add: "is"(3))
  ultimately have lt: "nat (n_solucao_g s) < length (solucao_g s)" by (simp add: len)
  note m = laco_marcas_inv[of "length ?ps" ?fl ?ps ?x "n_pontos_cobertos_g s"]
  have ml: "length (fst ?L) = length ?ps"
    and mn: "\<forall>j < length ?ps. fst ?L ! j = (if ?fl ! j = 0 \<and> cobre (?ps ! j) ?x then 1 else ?fl ! j)"
    and ms: "snd ?L = sum_list (fst ?L)"
    using m len nc(1) by simp_all
  have e: "escolhe s r = s\<lparr>solucao_g := (solucao_g s)[nat (n_solucao_g s) := ?x],
        n_solucao_g := n_solucao_g s + 1, pontos_cobertos_g := fst ?L, n_pontos_cobertos_g := snd ?L\<rparr>"
    by (simp add: escolhe_def marcar_laco)
  have sol: "sol_g (escolhe s r) = sol_g s @ [?x]"
    using lt ns by (simp add: e sol_g_def nat_add_distrib take_Suc_conv_app_nth)
  have fl': "\<forall>j < length ?ps. fst ?L ! j =
          (if \<exists>iv \<in> set (sol_g s @ [?x]). cobre (?ps ! j) iv then 1 else 0)"
    using mn fl by auto
  have "sum_list ?fl < sum_list (fst ?L)"
  proof (rule sum_list_estrito[where k = a])
    show "length ?fl = length (fst ?L)" by (simp add: ml len)
    show "\<forall>j<length ?fl. ?fl ! j \<le> fst ?L ! j" using mn len by auto
    show "a < length ?fl" using a' len by simp
    show "?fl ! a < fst ?L ! a" using mn a' r(2) by (simp add: candidato_def)
  qed
  then have gt: "n_pontos_cobertos_g s < snd ?L" using ms nc(1) by simp
  have is': "distinct (is @ [r]) \<and> (\<forall>i \<in> set (is @ [r]). i < length (intervalos_g s)) \<and>
      sol_g s @ [?x] = map ((!) (intervalos_g s)) (is @ [r])"
    using "is" rn r(1) by simp
  have b': "\<forall>k < length (sol_g s @ [?x]). \<exists>p \<in> set ?ps.
          cobre p ((sol_g s @ [?x]) ! k) \<and> (\<forall>j<k. \<not> cobre p ((sol_g s @ [?x]) ! j))"
  proof (intro allI impI)
    fix k assume k: "k < length (sol_g s @ [?x])"
    show "\<exists>p \<in> set ?ps. cobre p ((sol_g s @ [?x]) ! k) \<and> (\<forall>j<k. \<not> cobre p ((sol_g s @ [?x]) ! j))"
    proof (cases "k < length (sol_g s)")
      case True
      with b show ?thesis by (simp add: nth_append)
    next
      case False
      with k have ke: "k = length (sol_g s)" by simp
      have "cobre (?ps ! a) ((sol_g s @ [?x]) ! k)" using r(2) by (simp add: ke candidato_def)
      moreover have "\<forall>j<k. \<not> cobre (?ps ! a) ((sol_g s @ [?x]) ! j)"
        using nao by (auto simp: ke nth_append)
      moreover have "?ps ! a \<in> set ?ps" using a' by simp
      ultimately show ?thesis by blast
    qed
  qed
  have campos: "pontos_cobertos_g (escolhe s r) = fst ?L" "n_pontos_cobertos_g (escolhe s r) = snd ?L"
    "pontos_g (escolhe s r) = ?ps" "intervalos_g (escolhe s r) = intervalos_g s"
    "n_solucao_g (escolhe s r) = n_solucao_g s + 1"
    "length (solucao_g (escolhe s r)) = length (intervalos_g s)"
    by (simp_all add: e len)
  have ex: "\<exists>js. distinct js \<and> (\<forall>i \<in> set js. i < length (intervalos_g s)) \<and>
      sol_g s @ [?x] = map ((!) (intervalos_g s)) js"
    using is' by (intro exI[of _ "is @ [r]"])
  have n1: "n_solucao_g s + 1 \<le> int (length (intervalos_g s))" using lt len ns by simp
  have n2: "n_solucao_g s + 1 \<le> snd ?L" using gt nc(2) by simp
  have "inv_guloso (escolhe s r)"
    unfolding inv_guloso_def sol campos
    using ml len ns fl' ms n1 n2 ex b' by simp
  with gt sol show ?thesis by (simp add: e)
qed

lemma inv_guloso_marcas:
  "inv_guloso s \<Longrightarrow> j < length (pontos_g s) \<Longrightarrow>
   pontos_cobertos_g s ! j = (if \<exists>iv \<in> set (sol_g s). cobre (pontos_g s ! j) iv then 1 else 0)"
  by (simp add: inv_guloso_def)

lemma inv_guloso_len: "inv_guloso s \<Longrightarrow> length (pontos_cobertos_g s) = length (pontos_g s)"
  by (simp add: inv_guloso_def)

lemma marcas_01:
  assumes "inv_guloso s"
  shows "\<forall>x \<in> set (pontos_cobertos_g s). x = 0 \<or> x = 1"
proof
  fix x assume "x \<in> set (pontos_cobertos_g s)"
  then obtain j where j: "j < length (pontos_cobertos_g s)" "x = pontos_cobertos_g s ! j"
    by (auto simp: in_set_conv_nth)
  with assms have "x = (if \<exists>iv \<in> set (sol_g s). cobre (pontos_g s ! j) iv then 1 else 0)"
    by (simp add: inv_guloso_def)
  then show "x = 0 \<or> x = 1" by (simp split: if_splits)
qed

lemma sum_list_01_nonneg: "(\<forall>x \<in> set t. x = 0 \<or> x = (1::int)) \<Longrightarrow> 0 \<le> sum_list t"
  by (induction t) auto

lemma cobertos_limite:
  assumes "inv_guloso s"
  shows "0 \<le> n_pontos_cobertos_g s \<and> n_pontos_cobertos_g s \<le> int (length (pontos_g s))"
  using assms sum_list_01_le[OF marcas_01[OF assms]] sum_list_01_nonneg[OF marcas_01[OF assms]]
  by (simp add: inv_guloso_def)

lemma todos_iff:
  assumes "inv_guloso s"
  shows "todos_pontos_cobertos s \<noteq> 0 \<longleftrightarrow> (\<forall>j<length (pontos_g s). pontos_cobertos_g s ! j = 1)"
proof -
  have l: "length (pontos_cobertos_g s) = length (pontos_g s)"
    and n: "n_pontos_cobertos_g s = sum_list (pontos_cobertos_g s)"
    using assms by (simp_all add: inv_guloso_def)
  have "todos_pontos_cobertos s \<noteq> 0 \<longleftrightarrow>
      sum_list (pontos_cobertos_g s) = int (length (pontos_cobertos_g s))"
    by (simp add: todos_pontos_cobertos_def n_pontos_g_def n l)
  also have "\<dots> \<longleftrightarrow> (\<forall>x \<in> set (pontos_cobertos_g s). x = 1)"
    by (rule sum_list_01_full[OF marcas_01[OF assms]])
  also have "\<dots> \<longleftrightarrow> (\<forall>j<length (pontos_g s). pontos_cobertos_g s ! j = 1)"
    using l by (simp add: all_set_conv_all_nth)
  finally show ?thesis .
qed

lemma todos_cobre:
  assumes "inv_guloso s"
  shows "todos_pontos_cobertos s \<noteq> 0 \<longleftrightarrow> cobre_todos (pontos_g s) (set (sol_g s))"
proof -
  have "(pontos_cobertos_g s ! j = 1) = (\<exists>iv \<in> set (sol_g s). cobre (pontos_g s ! j) iv)"
    if "j < length (pontos_g s)" for j
    using inv_guloso_marcas[OF assms that] by simp
  then have "(\<forall>j<length (pontos_g s). pontos_cobertos_g s ! j = 1)
      \<longleftrightarrow> (\<forall>j<length (pontos_g s). \<exists>iv \<in> set (sol_g s). cobre (pontos_g s ! j) iv)"
    by blast
  also have "\<dots> \<longleftrightarrow> cobre_todos (pontos_g s) (set (sol_g s))"
    by (simp add: cobre_todos_def all_set_conv_all_nth)
  finally show ?thesis using todos_iff[OF assms] by simp
qed

lemma iteracao_casos:
  assumes i: "inv_guloso s"
  shows "(todos_pontos_cobertos s \<noteq> 0 \<and> guloso_iteracao s = None) \<or>
         (todos_pontos_cobertos s = 0 \<and>
          (\<exists>a. primeiro_descoberto s a \<and> (\<forall>j<length (intervalos_g s). \<not> candidato s a j) \<and>
               guloso_iteracao s = None)) \<or>
         (todos_pontos_cobertos s = 0 \<and>
          (\<exists>a r. primeiro_descoberto s a \<and> r < length (intervalos_g s) \<and> candidato s a r \<and>
               (\<forall>j<length (intervalos_g s). candidato s a j \<longrightarrow> preferido32 s r j) \<and>
               guloso_iteracao s = Some (escolhe s r)))"
proof (cases "todos_pontos_cobertos s = 0")
  case False
  then show ?thesis by (simp add: guloso_iteracao_def)
next
  case True
  then have "\<not> (\<forall>j<length (pontos_g s). pontos_cobertos_g s ! j = 1)"
    using todos_iff[OF i] by simp
  then obtain j where j: "j < length (pontos_g s)" "pontos_cobertos_g s ! j \<noteq> 1" by blast
  then have "pontos_cobertos_g s ! j \<in> set (pontos_cobertos_g s)"
    using inv_guloso_len[OF i] by simp
  with marcas_01[OF i] j have "pontos_cobertos_g s ! j = 0" by blast
  with j(1) have "\<exists>a. primeiro_descoberto s a" by (intro existe_primeiro) blast
  then obtain a where a: "primeiro_descoberto s a" ..
  then have a': "a < length (pontos_g s)" "pontos_cobertos_g s ! a = 0"
    by (simp_all add: primeiro_descoberto_def)
  from encontrar_resultado[OF a'] show ?thesis
  proof (elim disjE exE conjE)
    assume "\<forall>j<length (intervalos_g s). \<not> candidato s a j" "encontrar_melhor_intervalo s a = - 1"
    with a True iteracao_nenhum[OF a] show ?thesis by blast
  next
    fix r
    assume r: "r < length (intervalos_g s)" "candidato s a r" "encontrar_melhor_intervalo s a = int r"
      "\<forall>j<length (intervalos_g s). candidato s a j \<longrightarrow> preferido32 s r j"
    with a True iteracao_escolhe[OF True a r(3)] show ?thesis by blast
  qed
qed

lemma laco_termina:
  assumes "inv_guloso s"
  shows "\<exists>s'. guloso_laco s = Some s' \<and> inv_guloso s' \<and> guloso_iteracao s' = None \<and>
              pontos_g s' = pontos_g s \<and> intervalos_g s' = intervalos_g s \<and>
              alocador_g s' = alocador_g s"
  using assms
proof (induction "length (pontos_g s) - nat (n_pontos_cobertos_g s)" arbitrary: s rule: less_induct)
  case less
  note i = less.prems
  from iteracao_casos[OF i] show ?case
  proof (elim disjE exE conjE)
    assume "guloso_iteracao s = None"
    then show ?thesis using i by (subst guloso_laco.simps) simp
  next
    fix a
    assume "guloso_iteracao s = None"
    then show ?thesis using i by (subst guloso_laco.simps) simp
  next
    fix a r
    assume a: "primeiro_descoberto s a" "r < length (intervalos_g s)" "candidato s a r"
      "guloso_iteracao s = Some (escolhe s r)"
    note e = escolhe_inv[OF i a(1,2,3)]
    then have i': "inv_guloso (escolhe s r)" by simp
    have "length (pontos_g (escolhe s r)) - nat (n_pontos_cobertos_g (escolhe s r))
        < length (pontos_g s) - nat (n_pontos_cobertos_g s)"
      using e cobertos_limite[OF i] cobertos_limite[OF i'] by auto
    from less.hyps[OF this i'] obtain s' where
      "guloso_laco (escolhe s r) = Some s'" "inv_guloso s'" "guloso_iteracao s' = None"
      "pontos_g s' = pontos_g s" "intervalos_g s' = intervalos_g s" "alocador_g s' = alocador_g s"
      using e by auto
    then show ?thesis using a(4) by (subst guloso_laco.simps) simp
  qed
qed

lemma resolver_guloso_sucesso:
  "alocacoes_guloso s \<Longrightarrow>
   resolver_guloso s =
     (case guloso_laco (inicio_guloso s) of None \<Rightarrow> None
      | Some s' \<Rightarrow> Some (\<lparr>n_solucao_mg = n_solucao_g s'\<rparr>, s'))"
  by (simp add: resolver_guloso_def alocacoes_guloso_def split_beta Let_def inicio_guloso_def
      n_pontos_g_def n_intervalos_g_def)

lemma resolver_guloso_falha:
  "\<not> alocacoes_guloso s \<Longrightarrow>
   \<exists>s'. resolver_guloso s = Some (\<lparr>n_solucao_mg = 0\<rparr>, s') \<and> pontos_cobertos_g s' = [] \<and>
        pontos_g s' = pontos_g s \<and>
        n_pontos_cobertos_g s' = (if fst (c_alloc (alocador_g s)) then 0 else n_pontos_cobertos_g s)"
  by (auto simp add: resolver_guloso_def alocacoes_guloso_def split_beta Let_def)

lemma inv_inicio_guloso: "inv_guloso (inicio_guloso s)"
  by (simp add: inv_guloso_def inicio_guloso_def sol_g_def sum_list_replicate)

lemma sem_falhas_alocacoes: "sem_falhas (alocador_g s) \<Longrightarrow> alocacoes_guloso s"
  by (simp add: alocacoes_guloso_def sem_falhas_alloc)

lemma resolver_guloso_final:
  assumes "alocacoes_guloso s"
  shows "\<exists>s'. resolver_guloso s = Some (\<lparr>n_solucao_mg = n_solucao_g s'\<rparr>, s') \<and>
              inv_guloso s' \<and> guloso_iteracao s' = None \<and>
              pontos_g s' = pontos_g s \<and> intervalos_g s' = intervalos_g s"
proof -
  from laco_termina[OF inv_inicio_guloso[of s]] obtain s' where
    "guloso_laco (inicio_guloso s) = Some s'" "inv_guloso s'" "guloso_iteracao s' = None"
    "pontos_g s' = pontos_g (inicio_guloso s)" "intervalos_g s' = intervalos_g (inicio_guloso s)"
    by blast
  then show ?thesis
    by (simp add: resolver_guloso_sucesso[OF assms] inicio_guloso_def)
qed

lemma inv_guloso_limites:
  assumes "inv_guloso s"
  shows "n_solucao_g s \<le> int (length (intervalos_g s))" "n_solucao_g s \<le> int (length (pontos_g s))"
    "length (sol_g s) = nat (n_solucao_g s)" "set (sol_g s) \<subseteq> set (intervalos_g s)"
proof -
  show "n_solucao_g s \<le> int (length (intervalos_g s))" using assms by (simp add: inv_guloso_def)
  show "n_solucao_g s \<le> int (length (pontos_g s))"
    using assms cobertos_limite[OF assms] by (simp add: inv_guloso_def)
  have "length (solucao_g s) = length (intervalos_g s)" "n_solucao_g s \<le> int (length (intervalos_g s))"
    using assms by (simp_all add: inv_guloso_def)
  then show "length (sol_g s) = nat (n_solucao_g s)"
    by (simp add: sol_g_def)
  from assms obtain "is" where "\<forall>i \<in> set is. i < length (intervalos_g s)"
    "sol_g s = map ((!) (intervalos_g s)) is"
    unfolding inv_guloso_def by blast
  then show "set (sol_g s) \<subseteq> set (intervalos_g s)" by auto
qed

lemma preferido32_preferido:
  assumes "\<forall>iv \<in> set (intervalos_g s). tamanho_representavel iv"
    "r < length (intervalos_g s)" "j < length (intervalos_g s)"
  shows "preferido32 s r j = preferido s r j"
proof -
  have "tamanho32 (intervalos_g s ! r) = tamanho (intervalos_g s ! r)"
    "tamanho32 (intervalos_g s ! j) = tamanho (intervalos_g s ! j)"
    using assms by (simp_all add: tamanho32_def sint_sub_representavel)
  then show ?thesis by (simp add: preferido32_def preferido_def)
qed

lemma minimo_sem_redundancia:
  assumes mn: "\<And>c'. set c' \<subseteq> S \<Longrightarrow> cobre_todos ps (set c') \<Longrightarrow> length c \<le> length c'"
    and sub: "set c \<subseteq> S" and cov: "cobre_todos ps (set c)"
  shows "cada_um_cobre_novo ps c"
  unfolding cada_um_cobre_novo_def
proof (intro allI impI, rule ccontr)
  fix k assume k: "k < length c"
  assume "\<not> (\<exists>p \<in> set ps. cobre p (c ! k) \<and> (\<forall>j<k. \<not> cobre p (c ! j)))"
  then have red: "\<exists>j<k. cobre p (c ! j)" if "p \<in> set ps" "cobre p (c ! k)" for p
    using that by blast
  let ?c' = "take k c @ drop (Suc k) c"
  have dec: "c = take k c @ c ! k # drop (Suc k) c" using k by (rule id_take_nth_drop)
  have s1: "set c = set (take k c) \<union> {c ! k} \<union> set (drop (Suc k) c)"
    by (subst dec) auto
  have "set ?c' \<subseteq> S" using sub s1 by auto
  moreover have "cobre_todos ps (set ?c')"
    unfolding cobre_todos_def
  proof
    fix p assume p: "p \<in> set ps"
    with cov obtain iv where iv: "iv \<in> set c" "cobre p iv" unfolding cobre_todos_def by blast
    show "\<exists>iv \<in> set ?c'. cobre p iv"
    proof (cases "iv = c ! k")
      case True
      with red[OF p] iv(2) obtain j where j: "j < k" "cobre p (c ! j)" by blast
      then have "c ! j \<in> set (take k c)" using k by (auto simp: in_set_conv_nth intro!: exI[of _ j])
      with j(2) show ?thesis by auto
    next
      case False
      with iv(1) s1 have "iv \<in> set ?c'" by auto
      with iv(2) show ?thesis by blast
    qed
  qed
  ultimately have "length c \<le> length ?c'" by (rule mn)
  with k show False by simp
qed

lemma resolver_bt_melhor_limite:
  "melhor_ok s \<Longrightarrow> melhor_ok (snd (resolver_backtracking s)) \<and>
     n_melhor_solucao (snd (resolver_backtracking s)) \<le> n_melhor_solucao s \<and>
     pontos (snd (resolver_backtracking s)) = pontos s \<and>
     intervalos (snd (resolver_backtracking s)) = intervalos s"
proof (cases "fst (c_alloc (alocador s))")
  case True
  assume m: "melhor_ok s"
  from busca_inicio(1-4)[OF m] show ?thesis by (simp add: resolver_bt_sucesso[OF True])
next
  case False
  assume m: "melhor_ok s"
  have "melhor_ok (s\<lparr>solucao_atual := [], alocador := snd (c_alloc (alocador s))\<rparr>) = melhor_ok s"
    by (rule melhor_ok_mesmo) simp_all
  with m show ?thesis by (simp add: resolver_bt_falha[OF False])
qed

lemma exato_inviavel:
  assumes "melhor_ok s" "n_melhor_solucao s = INT_MAX"
    and "p \<in> set (pontos s)" "\<forall>iv \<in> set (intervalos s). \<not> cobre p iv"
  shows "n_melhor_solucao (snd (resolver_backtracking s)) = INT_MAX"
proof (rule ccontr)
  let ?s' = "snd (resolver_backtracking s)"
  assume n: "n_melhor_solucao ?s' \<noteq> INT_MAX"
  note r = resolver_bt_melhor_limite[OF assms(1)]
  with n have v: "subseq (melhor ?s') (intervalos s)" "cobre_todos (pontos s) (set (melhor ?s'))"
    by (auto simp: melhor_ok_def)
  from v(1) have "set (melhor ?s') \<subseteq> set (intervalos s)" by (rule subseq_conjunto)
  with v(2) assms(3,4) show False unfolding cobre_todos_def by blast
qed

lemma guloso_inviavel:
  assumes "n_pontos_cobertos_g s = 0"
    and "p \<in> set (pontos_g s)" "\<forall>iv \<in> set (intervalos_g s). \<not> cobre p iv"
  shows "\<exists>m s'. resolver_guloso s = Some (m, s') \<and> todos_pontos_cobertos s' = 0"
proof (cases "alocacoes_guloso s")
  case True
  from resolver_guloso_final[OF True] obtain s' where
    s': "resolver_guloso s = Some (\<lparr>n_solucao_mg = n_solucao_g s'\<rparr>, s')" "inv_guloso s'"
    "pontos_g s' = pontos_g s" "intervalos_g s' = intervalos_g s" by blast
  have "\<not> cobre_todos (pontos_g s') (set (sol_g s'))"
    using inv_guloso_limites(4)[OF s'(2)] assms(2,3) unfolding cobre_todos_def s'(3,4) by blast
  then have "todos_pontos_cobertos s' = 0" using todos_cobre[OF s'(2)] by simp
  with s'(1) show ?thesis by blast
next
  case False
  from resolver_guloso_falha[OF False] obtain s' where
    s': "resolver_guloso s = Some (\<lparr>n_solucao_mg = 0\<rparr>, s')" "pontos_g s' = pontos_g s"
    "n_pontos_cobertos_g s' = (if fst (c_alloc (alocador_g s)) then 0 else n_pontos_cobertos_g s)"
    by blast
  have "pontos_g s \<noteq> []" using assms(2) by auto
  then have "todos_pontos_cobertos s' = 0"
    using s'(2,3) assms(1) by (simp add: todos_pontos_cobertos_def n_pontos_g_def)
  with s'(1) show ?thesis by blast
qed

lemma guloso_viavel:
  assumes al: "alocacoes_guloso s"
    and cov: "\<forall>p \<in> set (pontos_g s). \<exists>iv \<in> set (intervalos_g s). cobre p iv"
  shows "\<exists>s'. resolver_guloso s = Some (\<lparr>n_solucao_mg = n_solucao_g s'\<rparr>, s') \<and> inv_guloso s' \<and>
              pontos_g s' = pontos_g s \<and> intervalos_g s' = intervalos_g s \<and>
              todos_pontos_cobertos s' \<noteq> 0"
proof -
  from resolver_guloso_final[OF al] obtain s' where
    s': "resolver_guloso s = Some (\<lparr>n_solucao_mg = n_solucao_g s'\<rparr>, s')" "inv_guloso s'"
    "guloso_iteracao s' = None"
    "pontos_g s' = pontos_g s" "intervalos_g s' = intervalos_g s" by blast
  have "todos_pontos_cobertos s' \<noteq> 0"
  proof (rule ccontr)
    assume "\<not> todos_pontos_cobertos s' \<noteq> 0"
    with iteracao_casos[OF s'(2)] s'(3) obtain a where
      a: "primeiro_descoberto s' a" "\<forall>j<length (intervalos_g s'). \<not> candidato s' a j" by auto
    then have "pontos_g s' ! a \<in> set (pontos_g s)"
      by (simp add: primeiro_descoberto_def s'(4)[symmetric])
    with cov obtain iv where iv: "iv \<in> set (intervalos_g s')" "cobre (pontos_g s' ! a) iv"
      unfolding s'(5) by blast
    then obtain j where "j < length (intervalos_g s')" "iv = intervalos_g s' ! j"
      by (auto simp: in_set_conv_nth)
    with a(2) iv(2) show False by (simp add: candidato_def)
  qed
  with s' show ?thesis by blast
qed

lemma nao_piora_trans: "nao_piora s s' \<Longrightarrow> nao_piora s' s'' \<Longrightarrow> nao_piora s s''"
  by (auto simp: nao_piora_def)

lemma nao_piora_mesmo:
  "melhor_solucao s' = melhor_solucao s \<Longrightarrow> n_melhor_solucao s' = n_melhor_solucao s \<Longrightarrow>
   nao_piora s s'"
  by (simp add: nao_piora_def)

lemma copiar_geral:
  "(melhor_solucao s = None \<and> melhor_solucao (copiar_solucao s) = None \<and>
    n_melhor_solucao (copiar_solucao s) = n_melhor_solucao s) \<or>
   n_melhor_solucao (copiar_solucao s) = n_solucao_atual s"
  by (cases "melhor_solucao s"; cases "fst (c_alloc (alocador s))")
     (simp_all add: copiar_solucao_def Let_def split_beta)

lemma ramo_nao_piora:
  assumes "\<not> poda s"
    and "\<not> cobre_parcial s i \<Longrightarrow> nao_piora (apos_verificar s i) (ramo s i)"
  shows "nao_piora s (desfaz (ramo s i))"
proof -
  have a: "melhor_solucao (apos_verificar s i) = melhor_solucao s"
    "n_melhor_solucao (apos_verificar s i) = n_melhor_solucao s"
    "n_solucao_atual (apos_verificar s i) = n_solucao_atual s + 1"
    by (simp_all add: apos_verificar_def inclui_def visita_def)
  have "nao_piora (apos_verificar s i) (ramo s i)"
  proof (cases "cobre_parcial s i")
    case True
    from copiar_geral[of "apos_verificar s i"] assms(1) show ?thesis
      by (auto simp: ramo_def True nao_piora_def a poda_def)
  next
    case False
    then show ?thesis by (rule assms(2))
  qed
  then show ?thesis by (simp add: nao_piora_def a desfaz_def)
qed

lemma bt_nao_piora: "nao_piora s (backtracking_recursivo s i)"
proof (induction s i rule: bt_induct)
  case (passo s i)
  have v: "nao_piora s (visita s)" by (simp add: nao_piora_def visita_def)
  show ?case
  proof (cases "para s i")
    case True
    then show ?thesis by (simp add: bt_unfold v)
  next
    case np: False
    show ?thesis
    proof (cases "poda s")
      case True
      with np passo(1) have "nao_piora (visita s) (backtracking_recursivo s i)"
        by (simp add: bt_unfold)
      with v show ?thesis by (rule nao_piora_trans)
    next
      case npo: False
      have "nao_piora (apos_verificar s i) (ramo s i)" if c: "\<not> cobre_parcial s i"
        using passo(2)[OF np npo c] c by (simp add: ramo_def)
      then have "nao_piora s (desfaz (ramo s i))" by (rule ramo_nao_piora[OF npo])
      moreover have "nao_piora (desfaz (ramo s i)) (backtracking_recursivo s i)"
        using passo(3)[OF np npo] np npo by (simp add: bt_unfold)
      ultimately show ?thesis by (rule nao_piora_trans)
    qed
  qed
qed

lemma resolver_bt_nao_piora: "nao_piora s (snd (resolver_backtracking s))"
proof (cases "fst (c_alloc (alocador s))")
  case True
  have "nao_piora s (inicio_busca s)" by (simp add: nao_piora_def inicio_busca_def)
  then show ?thesis
    using bt_nao_piora[of "inicio_busca s" 0]
    by (simp add: resolver_bt_sucesso[OF True]) (rule nao_piora_trans)
next
  case False
  then show ?thesis by (simp add: resolver_bt_falha nao_piora_def)
qed

lemma melhor_nao_muda:
  "melhor_solucao s' = melhor_solucao s \<Longrightarrow> n_melhor_solucao s' = n_melhor_solucao s \<Longrightarrow>
   melhor s' = melhor s"
  by (rule melhor_mesmo)

lemma segunda_busca:
  assumes ok: "melhor_ok s1"
    and mn: "\<And>c. set c \<subseteq> set (intervalos s1) \<Longrightarrow> cobre_todos (pontos s1) (set c) \<Longrightarrow>
                 n_melhor_solucao s1 \<le> int (length c)"
  shows "n_melhor_solucao (snd (resolver_backtracking s1)) = n_melhor_solucao s1 \<and>
         melhor (snd (resolver_backtracking s1)) = melhor s1"
proof -
  let ?s2 = "snd (resolver_backtracking s1)"
  note r = resolver_bt_melhor_limite[OF ok]
  note np = resolver_bt_nao_piora[of s1]
  have "n_melhor_solucao s1 \<le> n_melhor_solucao ?s2"
  proof (cases "n_melhor_solucao ?s2 = INT_MAX")
    case True
    with melhor_ok_limite[OF ok] show ?thesis by simp
  next
    case False
    with r have v: "0 \<le> n_melhor_solucao ?s2" "length (melhor ?s2) = nat (n_melhor_solucao ?s2)"
      "subseq (melhor ?s2) (intervalos s1)" "cobre_todos (pontos s1) (set (melhor ?s2))"
      by (auto simp: melhor_ok_def)
    from v(3) have "set (melhor ?s2) \<subseteq> set (intervalos s1)" by (rule subseq_conjunto)
    from mn[OF this v(4)] v(1,2) show ?thesis by simp
  qed
  with np have e: "n_melhor_solucao ?s2 = n_melhor_solucao s1" "melhor_solucao ?s2 = melhor_solucao s1"
    by (auto simp: nao_piora_def)
  then show ?thesis using melhor_nao_muda[OF e(2) e(1)] by simp
qed

lemma primeiro_unico:
  assumes "primeiro_descoberto s a'" "primeiro_descoberto s a"
  shows "a' = a"
proof (rule ccontr)
  assume "a' \<noteq> a"
  then consider "a' < a" | "a < a'" by linarith
  then show False using assms by cases (auto simp: primeiro_descoberto_def)
qed

lemma take_Suc_update:
  assumes "length xs = length ys" "take n xs = take n ys"
  shows "take (Suc n) (xs[n := v]) = take (Suc n) (ys[n := v])"
proof (rule nth_equalityI)
  show "length (take (Suc n) (xs[n := v])) = length (take (Suc n) (ys[n := v]))"
    using assms(1) by simp
next
  fix i
  assume "i < length (take (Suc n) (xs[n := v]))"
  then have i: "i < Suc n" "i < length xs" by simp_all
  show "take (Suc n) (xs[n := v]) ! i = take (Suc n) (ys[n := v]) ! i"
  proof (cases "i = n")
    case True
    with i assms(1) show ?thesis by simp
  next
    case False
    with i have "i < n" by simp
    then have "xs ! i = ys ! i"
      using nth_take[of i n xs] nth_take[of i n ys] assms(2) by simp
    with i False assms(1) show ?thesis by simp
  qed
qed

lemma laco_solucao:
  assumes "inv_guloso s" "length b = length (solucao_g s)"
    "take (nat (n_solucao_g s)) b = take (nat (n_solucao_g s)) (solucao_g s)"
  shows "\<exists>s' b'. guloso_laco s = Some s' \<and>
           guloso_laco (s\<lparr>solucao_g := b, alocador_g := al\<rparr>)
             = Some (s'\<lparr>solucao_g := b', alocador_g := al\<rparr>) \<and>
           take (nat (n_solucao_g s')) b' = take (nat (n_solucao_g s')) (solucao_g s')"
  using assms
proof (induction "length (pontos_g s) - nat (n_pontos_cobertos_g s)" arbitrary: s b rule: less_induct)
  case less
  note i = less.prems(1)
  let ?t = "s\<lparr>solucao_g := b, alocador_g := al\<rparr>"
  let ?n = "nat (n_solucao_g s)"
  have it: "inv_guloso ?t"
    using i less.prems(2,3) by (simp add: inv_guloso_def sol_g_def)
  have nenhum: ?case if n: "guloso_iteracao s = None" "guloso_iteracao ?t = None"
  proof -
    have "guloso_laco s = Some s" by (subst guloso_laco.simps) (simp add: n)
    moreover have "guloso_laco ?t = Some ?t" by (subst guloso_laco.simps) (simp add: n)
    ultimately show ?thesis using less.prems(3) by auto
  qed
  have campos: "todos_pontos_cobertos ?t = todos_pontos_cobertos s"
    "primeiro_descoberto ?t a = primeiro_descoberto s a"
    "candidato ?t a j = candidato s a j" "intervalos_g ?t = intervalos_g s" for a j
    by (simp_all add: todos_pontos_cobertos_def n_pontos_g_def primeiro_descoberto_def candidato_def)
  have pr: "preferido32 ?t r j = preferido32 s r j" for r j
    by (simp add: preferido32_def potencial_def)
  from iteracao_casos[OF i] show ?case
  proof (elim disjE exE conjE)
    assume a: "todos_pontos_cobertos s \<noteq> 0" "guloso_iteracao s = None"
    then have "guloso_iteracao ?t = None" by (simp add: guloso_iteracao_def campos)
    with a show ?thesis by (intro nenhum)
  next
    fix a
    assume a: "todos_pontos_cobertos s = 0" "primeiro_descoberto s a"
      "\<forall>j<length (intervalos_g s). \<not> candidato s a j" "guloso_iteracao s = None"
    have "guloso_iteracao ?t = None"
      using iteracao_casos[OF it] a(1,3) primeiro_unico[OF _ a(2)] by (auto simp: campos)
    with a show ?thesis by (intro nenhum)
  next
    fix a r
    assume a: "todos_pontos_cobertos s = 0" "primeiro_descoberto s a" "r < length (intervalos_g s)"
      "candidato s a r" "\<forall>j<length (intervalos_g s). candidato s a j \<longrightarrow> preferido32 s r j"
      "guloso_iteracao s = Some (escolhe s r)"
    from iteracao_casos[OF it] a(1) obtain a' r' where
      a': "primeiro_descoberto s a'" "r' < length (intervalos_g s)" "candidato s a' r'"
      "\<forall>j<length (intervalos_g s). candidato s a' j \<longrightarrow> preferido32 s r' j"
      "guloso_iteracao ?t = Some (escolhe ?t r')"
      using a(3,4) primeiro_unico[OF _ a(2)] by (auto simp: campos pr)
    have "a' = a" using a'(1) a(2) by (rule primeiro_unico)
    with a a' have "preferido32 s r r'" "preferido32 s r' r" by simp_all
    then have rr: "r' = r" by (auto simp: preferido32_def)
    note e = escolhe_inv[OF i a(2,3,4)]
    then have i': "inv_guloso (escolhe s r)" by simp
    let ?b = "b[?n := intervalos_g s ! r]"
    have n0: "0 \<le> n_solucao_g s" using i by (simp add: inv_guloso_def)
    have et: "escolhe ?t r = (escolhe s r)\<lparr>solucao_g := ?b, alocador_g := al\<rparr>"
      by (simp add: escolhe_def marcar_laco)
    have sg: "solucao_g (escolhe s r) = (solucao_g s)[?n := intervalos_g s ! r]"
      by (simp add: escolhe_def marcar_laco)
    have l: "length ?b = length (solucao_g (escolhe s r))"
      using less.prems(2) by (simp add: sg)
    have ns: "nat (n_solucao_g (escolhe s r)) = Suc ?n" using e n0 by simp
    have tk: "take (nat (n_solucao_g (escolhe s r))) ?b
            = take (nat (n_solucao_g (escolhe s r))) (solucao_g (escolhe s r))"
      unfolding ns sg using less.prems(2,3) by (rule take_Suc_update)
    have "length (pontos_g (escolhe s r)) - nat (n_pontos_cobertos_g (escolhe s r))
        < length (pontos_g s) - nat (n_pontos_cobertos_g s)"
      using e cobertos_limite[OF i] cobertos_limite[OF i'] by auto
    from less.hyps[OF this i' l tk] obtain s' b' where
      s': "guloso_laco (escolhe s r) = Some s'"
      "guloso_laco ((escolhe s r)\<lparr>solucao_g := ?b, alocador_g := al\<rparr>)
         = Some (s'\<lparr>solucao_g := b', alocador_g := al\<rparr>)"
      "take (nat (n_solucao_g s')) b' = take (nat (n_solucao_g s')) (solucao_g s')"
      by blast
    have "guloso_laco s = guloso_laco (escolhe s r)"
      by (subst guloso_laco.simps) (simp add: a(6))
    moreover have "guloso_laco ?t = guloso_laco (escolhe ?t r)"
      by (subst guloso_laco.simps) (simp add: a'(5) rr)
    ultimately show ?thesis using s' et by auto
  qed
qed

lemma segunda_gulosa:
  assumes "alocacoes_guloso s" "resolver_guloso s = Some (m1, s1)" "alocacoes_guloso s1"
  shows "\<exists>m2 s2. resolver_guloso s1 = Some (m2, s2) \<and> sol_g s2 = sol_g s1 \<and>
           n_solucao_mg m2 = n_solucao_mg m1 \<and> n_solucao_g s2 = n_solucao_g s1 \<and>
           pontos_cobertos_g s2 = pontos_cobertos_g s1"
proof -
  from resolver_guloso_final[OF assms(1)] assms(2) have
    s1: "m1 = \<lparr>n_solucao_mg = n_solucao_g s1\<rparr>"
    "pontos_g s1 = pontos_g s" "intervalos_g s1 = intervalos_g s" by auto
  have l1: "guloso_laco (inicio_guloso s) = Some s1"
    using assms(2) by (simp add: resolver_guloso_sucesso[OF assms(1)] split: option.splits)
  let ?b = "solucao_g (inicio_guloso s1)" and ?al = "alocador_g (inicio_guloso s1)"
  have "inicio_guloso s1 = (inicio_guloso s)\<lparr>solucao_g := ?b, alocador_g := ?al\<rparr>"
    by (simp add: inicio_guloso_def s1)
  moreover have "length ?b = length (solucao_g (inicio_guloso s))"
    "take (nat (n_solucao_g (inicio_guloso s))) ?b
       = take (nat (n_solucao_g (inicio_guloso s))) (solucao_g (inicio_guloso s))"
    by (simp_all add: inicio_guloso_def s1)
  from laco_solucao[OF inv_inicio_guloso[of s] this, of ?al] l1 obtain b' where
    "guloso_laco ((inicio_guloso s)\<lparr>solucao_g := ?b, alocador_g := ?al\<rparr>)
       = Some (s1\<lparr>solucao_g := b', alocador_g := ?al\<rparr>)"
    "take (nat (n_solucao_g s1)) b' = take (nat (n_solucao_g s1)) (solucao_g s1)"
    by auto
  ultimately have "guloso_laco (inicio_guloso s1) = Some (s1\<lparr>solucao_g := b', alocador_g := ?al\<rparr>)"
    "take (nat (n_solucao_g s1)) b' = take (nat (n_solucao_g s1)) (solucao_g s1)"
    by simp_all
  then show ?thesis
    by (simp add: resolver_guloso_sucesso[OF assms(3)] s1 sol_g_def)
qed

lemma busca_sem_falhas:
  assumes "melhor_ok s" "sem_falhas (alocador s)"
  shows "sem_falhas (alocador (snd (resolver_backtracking s)))"
proof -
  have ok: "fst (c_alloc (alocador s))" using assms(2) by (simp add: sem_falhas_alloc)
  have "sem_falhas (alocador (inicio_busca s))"
    using assms(2) by (simp add: inicio_busca_def sem_falhas_alloc)
  with bt_resultado[OF inv_inicio[OF assms(1)]] show ?thesis
    by (simp add: resultado_def resolver_bt_sucesso[OF ok])
qed

lemma exato_minimo_listas:
  assumes "melhor_ok s" "sem_falhas (alocador s)" "pontos s \<noteq> []"
    and "set c \<subseteq> set (intervalos s)" "cobre_todos (pontos s) (set c)"
  shows "n_melhor_solucao (snd (resolver_backtracking s)) \<le> int (length c)"
proof -
  have ok: "fst (c_alloc (alocador s))" using assms(2) by (simp add: sem_falhas_alloc)
  from busca_inicio(6)[OF assms(1,2,3,4,5)] card_length[of c] show ?thesis
    by (simp add: resolver_bt_sucesso[OF ok])
qed

lemma exato_metricas:
  "fst (c_alloc (alocador s)) \<Longrightarrow>
   n_solucao_m (fst (resolver_backtracking s)) = n_melhor_solucao (snd (resolver_backtracking s))"
  by (simp add: resolver_bt_sucesso)

lemma exato_cobertura:
  assumes "melhor_ok s" "n_melhor_solucao (snd (resolver_backtracking s)) \<noteq> INT_MAX"
  shows "0 \<le> n_melhor_solucao (snd (resolver_backtracking s))"
    "length (melhor (snd (resolver_backtracking s))) = nat (n_melhor_solucao (snd (resolver_backtracking s)))"
    "set (melhor (snd (resolver_backtracking s))) \<subseteq> set (intervalos s)"
    "cobre_todos (pontos s) (set (melhor (snd (resolver_backtracking s))))"
proof -
  let ?s' = "snd (resolver_backtracking s)"
  from resolver_bt_melhor_limite[OF assms(1)] assms(2)
  have v: "0 \<le> n_melhor_solucao ?s'" "length (melhor ?s') = nat (n_melhor_solucao ?s')"
      "subseq (melhor ?s') (intervalos s)" "cobre_todos (pontos s) (set (melhor ?s'))"
    by (auto simp: melhor_ok_def)
  from v(3) have "set (melhor ?s') \<subseteq> set (intervalos s)" by (rule subseq_conjunto)
  with v show "0 \<le> n_melhor_solucao ?s'" "length (melhor ?s') = nat (n_melhor_solucao ?s')"
    "set (melhor ?s') \<subseteq> set (intervalos s)" "cobre_todos (pontos s) (set (melhor ?s'))"
    by simp_all
qed

lemma resolver_guloso_alocador:
  assumes "alocacoes_guloso s" "resolver_guloso s = Some (m, s1)"
  shows "alocador_g s1 = snd (c_alloc (snd (c_alloc (alocador_g s))))"
proof -
  from laco_termina[OF inv_inicio_guloso[of s]] obtain s' where
    s': "guloso_laco (inicio_guloso s) = Some s'" "alocador_g s' = alocador_g (inicio_guloso s)"
    by blast
  with assms(2) have "s1 = s'" by (simp add: resolver_guloso_sucesso[OF assms(1)])
  with s'(2) show ?thesis by (simp add: inicio_guloso_def)
qed

lemma equivalentes_testes:
  assumes "equivalentes s t"
  shows "para t i = para s i" "poda t = poda s"
  using assms by (simp_all add: equivalentes_def para_def poda_def n_intervalos_def)

lemma equivalentes_visita:
  assumes "equivalentes s t"
  shows "equivalentes (visita s) (visita t)"
proof -
  have "melhor (visita s) = melhor s" "melhor (visita t) = melhor t"
    by (rule melhor_mesmo; simp add: visita_def)+
  moreover have "parcial (visita s) = parcial s" "parcial (visita t) = parcial t"
    by (simp_all add: parcial_def visita_def)
  ultimately show ?thesis
    using assms by (simp add: equivalentes_def) (simp add: visita_def)
qed

lemma equivalentes_apos:
  assumes e: "equivalentes s t" and i: "inv_busca s i" "inv_busca t i"
    and lt: "i < length (intervalos s)"
  shows "equivalentes (apos_verificar s i) (apos_verificar t i)"
proof -
  from i lt e have n: "0 \<le> n_solucao_atual s" "nat (n_solucao_atual s) < length (solucao_atual s)"
    "0 \<le> n_solucao_atual t" "nat (n_solucao_atual t) < length (solucao_atual t)"
    by (auto simp: inv_busca_def equivalentes_def)
  have "melhor (apos_verificar s i) = melhor s" "melhor (apos_verificar t i) = melhor t"
    by (rule melhor_mesmo; simp add: apos_verificar_def inclui_def visita_def)+
  then show ?thesis
    using e parcial_apos[OF n(1,2), of i] parcial_apos[OF n(3,4), of i]
    by (simp add: equivalentes_def)
       (simp add: apos_verificar_def inclui_def visita_def sem_falhas_alloc)
qed

lemma equivalentes_cobre:
  assumes e: "equivalentes s t" and i: "inv_busca s i" "inv_busca t i"
    and lt: "i < length (intervalos s)"
  shows "cobre_parcial t i = cobre_parcial s i"
proof -
  from e have lt': "i < length (intervalos t)" using lt by (simp add: equivalentes_def)
  show ?thesis
    using e cobre_parcial_iff[OF i(1) lt] cobre_parcial_iff[OF i(2) lt']
    by (simp add: equivalentes_def sem_falhas_alloc)
qed

lemma melhor_copiada:
  assumes i: "inv_busca s i" and lt: "i < length (intervalos s)" and sf: "sem_falhas (alocador s)"
  shows "melhor (copiar_solucao (apos_verificar s i)) = parcial s @ [intervalos s ! i]"
    "n_melhor_solucao (copiar_solucao (apos_verificar s i)) = n_solucao_atual s + 1"
proof -
  let ?a = "apos_verificar s i"
  have ia: "inv_busca ?a (Suc i)" by (rule inv_apos[OF i lt])
  from i lt have n: "0 \<le> n_solucao_atual s" "nat (n_solucao_atual s) < length (solucao_atual s)"
    by (auto simp: inv_busca_def)
  have pa: "parcial ?a = parcial s @ [intervalos s ! i]" by (rule parcial_apos[OF n])
  have na: "n_solucao_atual ?a = n_solucao_atual s + 1"
    by (simp add: apos_verificar_def inclui_def)
  have ok: "fst (c_alloc (alocador ?a))"
    using sf by (simp add: apos_verificar_def sem_falhas_alloc)
  have "0 \<le> n_solucao_atual ?a" "nat (n_solucao_atual ?a) \<le> length (solucao_atual ?a)"
    "length (solucao_atual ?a) = length (intervalos ?a)"
    "\<forall>b. melhor_solucao ?a = Some b \<longrightarrow> length b = length (intervalos ?a)"
    using ia n by (simp_all add: inv_busca_def melhor_ok_def na)
       (simp_all add: apos_verificar_def inclui_def)
  from copiar_efeito[OF this] ok obtain b' where
    b: "melhor_solucao (copiar_solucao ?a) = Some b'" "take (nat (n_solucao_atual ?a)) b' = parcial ?a"
    "n_melhor_solucao (copiar_solucao ?a) = n_solucao_atual ?a" by auto
  then show "melhor (copiar_solucao ?a) = parcial s @ [intervalos s ! i]"
    by (simp add: melhor_def pa)
  from b(3) show "n_melhor_solucao (copiar_solucao ?a) = n_solucao_atual s + 1" by (simp add: na)
qed

lemma equivalentes_desfaz:
  assumes e: "equivalentes s t" and i: "inv_busca s i" "inv_busca t i"
    and lt: "i < length (intervalos s)"
    and q: "quadro (apos_verificar s i) r" "quadro (apos_verificar t i) r'"
    and m: "melhor_ok r" "melhor_ok r'"
    and r: "n_melhor_solucao r' = n_melhor_solucao r" "melhor r' = melhor r"
      "nos_visitados r' = nos_visitados r" "sem_falhas (alocador r)" "sem_falhas (alocador r')"
  shows "equivalentes (desfaz r) (desfaz r')"
proof -
  from e have lt': "i < length (intervalos t)" using lt by (simp add: equivalentes_def)
  note d = inv_desfaz[OF i(1) lt q(1) m(1)]
  note d' = inv_desfaz[OF i(2) lt' q(2) m(2)]
  have "melhor (desfaz r) = melhor r" "melhor (desfaz r') = melhor r'"
    by (rule melhor_mesmo; simp add: desfaz_def)+
  then show ?thesis
    using e d d' r by (simp add: equivalentes_def) (simp add: desfaz_def)
qed

lemma bt_equivalentes:
  assumes "inv_busca s i" "inv_busca t i" "equivalentes s t"
  shows "equivalentes (backtracking_recursivo s i) (backtracking_recursivo t i)"
  using assms
proof (induction "length (intervalos s) - i" arbitrary: s t i rule: less_induct)
  case less
  note i = less.prems(1,2) and e = less.prems(3)
  note ts = equivalentes_testes[OF e]
  from e have it: "intervalos t = intervalos s" by (simp add: equivalentes_def)
  show ?case
  proof (cases "para s i")
    case True
    then show ?thesis using ts equivalentes_visita[OF e] by (simp add: bt_unfold)
  next
    case np: False
    then have lt: "i < length (intervalos s)" by (simp add: para_def n_intervalos_def)
    then have lt': "i < length (intervalos t)" by (simp add: it)
    from np ts have np': "\<not> para t i" by simp
    show ?thesis
    proof (cases "poda s")
      case True
      have "length (intervalos (visita s)) - Suc i < length (intervalos s) - i"
        using lt by (simp add: visita_def)
      from less.hyps[OF this inv_visita[OF i(1)] inv_visita[OF i(2)] equivalentes_visita[OF e]]
      show ?thesis using np True ts by (simp add: bt_unfold)
    next
      case npo: False
      from npo ts have npo': "\<not> poda t" by simp
      let ?a = "apos_verificar s i" and ?a' = "apos_verificar t i"
      note ia = inv_apos[OF i(1) lt] inv_apos[OF i(2) lt']
      note ea = equivalentes_apos[OF e i lt]
      note c = equivalentes_cobre[OF e i lt]
      have rs: "resultado ?a (Suc i) (ramo s i)" if "\<not> cobre_parcial s i"
        using bt_resultado[OF ia(1)] that by (simp add: ramo_def)
      have rt: "resultado ?a' (Suc i) (ramo t i)" if "\<not> cobre_parcial t i"
        using bt_resultado[OF ia(2)] that by (simp add: ramo_def)
      note us = ramo_fatos[OF i(1) np npo rs] and ut = ramo_fatos[OF i(2) np' npo' rt]
      have ed: "equivalentes (desfaz (ramo s i)) (desfaz (ramo t i))"
      proof (cases "cobre_parcial s i")
        case True
        with c have True': "cobre_parcial t i" by simp
        from e have sf: "sem_falhas (alocador s)" "sem_falhas (alocador t)"
          by (simp_all add: equivalentes_def)
        note f = ramo_cobre[OF i(1) lt npo True] and f' = ramo_cobre[OF i(2) lt' npo' True']
        have r: "ramo s i = copiar_solucao ?a" "ramo t i = copiar_solucao ?a'"
          using True True' by (simp_all add: ramo_def)
        have nv: "nos_visitados (ramo t i) = nos_visitados (ramo s i)"
          using e by (simp add: r copiar_campos)
             (simp add: apos_verificar_def inclui_def visita_def equivalentes_def)
        have ml: "melhor (ramo t i) = melhor (ramo s i)"
          "n_melhor_solucao (ramo t i) = n_melhor_solucao (ramo s i)"
          using melhor_copiada[OF i(1) lt sf(1)] melhor_copiada[OF i(2) lt' sf(2)] e
          by (simp_all add: r equivalentes_def)
        show ?thesis
          by (rule equivalentes_desfaz[OF e i lt])
             (use f f' sf nv ml in simp_all)
      next
        case False
        with c have False': "\<not> cobre_parcial t i" by simp
        have r: "ramo s i = backtracking_recursivo ?a (Suc i)"
          "ramo t i = backtracking_recursivo ?a' (Suc i)"
          using False False' by (simp_all add: ramo_def)
        have "length (intervalos ?a) - Suc i < length (intervalos s) - i"
          using lt by (simp add: apos_verificar_def inclui_def visita_def)
        from less.hyps[OF this ia ea] have er: "equivalentes (ramo s i) (ramo t i)"
          by (simp add: r)
        have q: "quadro ?a (ramo s i)" "quadro ?a' (ramo t i)"
          by (simp_all add: r bt_quadro)
        have mo: "melhor_ok (ramo s i)" "melhor_ok (ramo t i)"
          using rs[OF False] rt[OF False'] by (simp_all add: resultado_def)
        show ?thesis
          by (rule equivalentes_desfaz[OF e i lt q mo])
             (use er in \<open>simp_all add: equivalentes_def\<close>)
      qed
      have "length (intervalos (desfaz (ramo s i))) - Suc i < length (intervalos s) - i"
        using lt by (simp add: ramo_intervalos)
      from less.hyps[OF this _ _ ed] us ut
      show ?thesis using np npo np' npo' by (simp add: bt_unfold apos_ramo_def)
    qed
  qed
qed

lemma solucoes_iguais:
  assumes "sem_falhas al" "sem_falhas al'"
  shows "melhor (snd (resolver_backtracking (preparar_backtracking ps ivs al')))
           = melhor (snd (resolver_backtracking (preparar_backtracking ps ivs al)))"
    "fst (resolver_backtracking (preparar_backtracking ps ivs al'))
           = fst (resolver_backtracking (preparar_backtracking ps ivs al))"
proof -
  let ?s = "preparar_backtracking ps ivs al" and ?t = "preparar_backtracking ps ivs al'"
  have p: "n_melhor_solucao ?s = INT_MAX" "melhor_solucao ?s = None"
    "n_melhor_solucao ?t = INT_MAX" "melhor_solucao ?t = None"
    "alocador ?s = al" "alocador ?t = al'"
    by (simp_all add: preparar_backtracking_def inicializar_problema_backtracking_def)
  have ok: "fst (c_alloc (alocador ?s))" "fst (c_alloc (alocador ?t))"
    using assms by (simp_all add: p sem_falhas_alloc)
  have m: "melhor_ok ?s" "melhor_ok ?t" by (rule melhor_ok_preparado; simp add: p)+
  have "equivalentes (inicio_busca ?s) (inicio_busca ?t)"
    using assms
    by (simp add: equivalentes_def parcial_def melhor_def)
       (simp add: inicio_busca_def preparar_backtracking_def
          inicializar_problema_backtracking_def sem_falhas_alloc)
  from bt_equivalentes[OF inv_inicio[OF m(1)] inv_inicio[OF m(2)] this]
  show "melhor (snd (resolver_backtracking ?t)) = melhor (snd (resolver_backtracking ?s))"
    "fst (resolver_backtracking ?t) = fst (resolver_backtracking ?s)"
    by (simp_all add: resolver_bt_sucesso[OF ok(1)] resolver_bt_sucesso[OF ok(2)] equivalentes_def)
qed

lemma gulosas_iguais:
  assumes "alocacoes_guloso (preparar_guloso ps ivs al)" "alocacoes_guloso (preparar_guloso ps ivs al')"
  shows "\<exists>m s1 s2. resolver_guloso (preparar_guloso ps ivs al) = Some (m, s1) \<and>
           resolver_guloso (preparar_guloso ps ivs al') = Some (m, s2) \<and> sol_g s2 = sol_g s1"
proof -
  let ?s = "preparar_guloso ps ivs al" and ?t = "preparar_guloso ps ivs al'"
  let ?b = "solucao_g (inicio_guloso ?t)" and ?al = "alocador_g (inicio_guloso ?t)"
  from resolver_guloso_final[OF assms(1)] obtain s1 where
    s1: "resolver_guloso ?s = Some (\<lparr>n_solucao_mg = n_solucao_g s1\<rparr>, s1)" by blast
  then have l1: "guloso_laco (inicio_guloso ?s) = Some s1"
    by (simp add: resolver_guloso_sucesso[OF assms(1)] split: option.splits)
  have t: "inicio_guloso ?t = (inicio_guloso ?s)\<lparr>solucao_g := ?b, alocador_g := ?al\<rparr>"
    by (simp add: inicio_guloso_def preparar_guloso_def inicializar_problema_def)
  have "length ?b = length (solucao_g (inicio_guloso ?s))"
    "take (nat (n_solucao_g (inicio_guloso ?s))) ?b
       = take (nat (n_solucao_g (inicio_guloso ?s))) (solucao_g (inicio_guloso ?s))"
    by (simp_all add: inicio_guloso_def preparar_guloso_def inicializar_problema_def)
  from laco_solucao[OF inv_inicio_guloso[of ?s] this, of ?al] l1 obtain b' where
    "guloso_laco ((inicio_guloso ?s)\<lparr>solucao_g := ?b, alocador_g := ?al\<rparr>)
       = Some (s1\<lparr>solucao_g := b', alocador_g := ?al\<rparr>)"
    "take (nat (n_solucao_g s1)) b' = take (nat (n_solucao_g s1)) (solucao_g s1)"
    by auto
  with t have "guloso_laco (inicio_guloso ?t) = Some (s1\<lparr>solucao_g := b', alocador_g := ?al\<rparr>)"
    "take (nat (n_solucao_g s1)) b' = take (nat (n_solucao_g s1)) (solucao_g s1)"
    by simp_all
  then show ?thesis
    using s1 by (simp add: resolver_guloso_sucesso[OF assms(2)] sol_g_def)
qed

lemma preparado_campos:
  "pontos (preparar_backtracking ps ivs al) = ps"
  "intervalos (preparar_backtracking ps ivs al) = ivs"
  "alocador (preparar_backtracking ps ivs al) = al"
  "n_melhor_solucao (preparar_backtracking ps ivs al) = INT_MAX"
  "melhor_solucao (preparar_backtracking ps ivs al) = None"
  "pontos_g (preparar_guloso ps ivs al) = ps"
  "intervalos_g (preparar_guloso ps ivs al) = ivs"
  "alocador_g (preparar_guloso ps ivs al) = al"
  by (simp_all add: preparar_backtracking_def inicializar_problema_backtracking_def
      preparar_guloso_def inicializar_problema_def)

lemma exemplo_preparado:
  "pontos (preparar_backtracking exemplo_pontos exemplo_intervalos []) \<noteq> []"
  "n_intervalos (preparar_backtracking exemplo_pontos exemplo_intervalos []) < INT_MAX"
  "sem_falhas (alocador (preparar_backtracking exemplo_pontos exemplo_intervalos []))"
  "n_melhor_solucao (preparar_backtracking exemplo_pontos exemplo_intervalos []) = INT_MAX"
  "melhor_solucao (preparar_backtracking exemplo_pontos exemplo_intervalos []) = None"
  by (simp_all add: preparar_backtracking_def inicializar_problema_backtracking_def
      n_intervalos_def INT_MAX_def sem_falhas_def exemplo_pontos_def exemplo_intervalos_def)

lemma exemplo_preparado_g:
  "sem_falhas (alocador_g (preparar_guloso exemplo_pontos exemplo_intervalos_g []))"
  "alocacoes_guloso (preparar_guloso exemplo_pontos exemplo_intervalos_g [])"
  "pontos_g (preparar_guloso exemplo_pontos exemplo_intervalos_g []) = exemplo_pontos"
  "intervalos_g (preparar_guloso exemplo_pontos exemplo_intervalos_g []) = exemplo_intervalos_g"
  by (simp_all add: preparar_guloso_def inicializar_problema_def sem_falhas_def
      alocacoes_guloso_def c_alloc_def)

lemma exemplo_campos:
  "pontos (preparar_backtracking exemplo_pontos exemplo_intervalos []) = exemplo_pontos"
  "intervalos (preparar_backtracking exemplo_pontos exemplo_intervalos []) = exemplo_intervalos"
  by (simp_all add: preparar_backtracking_def inicializar_problema_backtracking_def)

lemma exemplo_resolvido:
  "n_melhor_solucao (snd (resolver_backtracking
       (preparar_backtracking exemplo_pontos exemplo_intervalos []))) \<noteq> INT_MAX"
  by code_simp

lemma comprimento_bits_nonneg: "0 \<le> comprimento_bits n"
  by (induction n rule: comprimento_bits.induct) (subst comprimento_bits.simps, simp)

lemma comprimento_bits_pos: "0 < n \<Longrightarrow> 0 < comprimento_bits n"
  using comprimento_bits_nonneg[of "n div 2"] by (subst comprimento_bits.simps) simp

lemma comprimento_bits_bounds:
  "0 < n \<Longrightarrow> 2 ^ nat (comprimento_bits n - 1) \<le> n \<and> n < 2 ^ nat (comprimento_bits n)"
proof (induction n rule: comprimento_bits.induct)
  case (1 n)
  have c: "comprimento_bits n = 1 + comprimento_bits (n div 2)"
    using 1(2) by (subst comprimento_bits.simps) simp
  show ?case
  proof (cases "n div 2 = 0")
    case True
    then have "n = 1" using 1(2) by simp
    moreover have "comprimento_bits 0 = 0" by (subst comprimento_bits.simps) simp
    ultimately show ?thesis using c by simp
  next
    case False
    then have p: "0 < n div 2" using 1(2) by simp
    let ?c = "comprimento_bits (n div 2)"
    from 1(1) p 1(2) have ih: "2 ^ nat (?c - 1) \<le> n div 2" "n div 2 < 2 ^ nat ?c"
      by simp_all
    have cp: "0 < ?c"
    proof (rule ccontr)
      assume "\<not> 0 < ?c"
      then have "nat ?c = 0" by simp
      with ih(2) p show False by simp
    qed
    then have n1: "nat ?c = Suc (nat (?c - 1))" by simp
    have "(2::int) ^ nat ?c = 2 * 2 ^ nat (?c - 1)" by (subst n1) simp
    moreover have "(2::int) ^ nat (1 + ?c) = 2 * 2 ^ nat ?c"
      using cp by (simp add: nat_add_distrib)
    ultimately show ?thesis using ih unfolding c by simp linarith
  qed
qed

lemma expoente_bounds:
  assumes "x \<noteq> 0"
  shows "2 powi expoente x \<le> \<bar>x\<bar>" "\<bar>x\<bar> < 2 powi (expoente x + 1)"
proof -
  have "2 powi expoente x \<le> \<bar>x\<bar> \<and> \<bar>x\<bar> < 2 powi (expoente x + 1)"
  proof (cases "1 \<le> \<bar>x\<bar>")
    case True
    let ?n = "\<lfloor>\<bar>x\<bar>\<rfloor>"
    let ?c = "comprimento_bits ?n"
    have "(1::int) \<le> ?n" using True by (subst le_floor_iff) simp
    then have n: "0 < ?n" by linarith
    note b = comprimento_bits_bounds[OF n]
    have cp: "0 < ?c" by (rule comprimento_bits_pos[OF n])
    have e: "expoente x = ?c - 1" using True by (simp add: expoente_def)
    have "(2::rat) powi (?c - 1) = of_int (2 ^ nat (?c - 1))"
      using cp by (simp add: power_int_def)
    also have "\<dots> \<le> of_int ?n" using b by (simp only: of_int_le_iff)
    also have "\<dots> \<le> \<bar>x\<bar>" by simp
    finally have l: "2 powi expoente x \<le> \<bar>x\<bar>" by (simp add: e)
    have "\<bar>x\<bar> < of_int (?n + 1)" by linarith
    also have "\<dots> \<le> of_int (2 ^ nat ?c)" using b by (simp only: of_int_le_iff) simp
    also have "\<dots> = (2::rat) powi ?c" using cp by (simp add: power_int_def)
    finally show ?thesis using l by (simp add: e)
  next
    case False
    let ?y = "1 / \<bar>x\<bar>"
    let ?n = "\<lceil>?y\<rceil> - 1"
    let ?c = "comprimento_bits ?n"
    have x: "0 < \<bar>x\<bar>" "\<bar>x\<bar> < 1" using assms False by simp_all
    then have y: "1 < ?y" by simp
    then have n: "0 < ?n" by linarith
    note b = comprimento_bits_bounds[OF n]
    have cp: "0 < ?c" by (rule comprimento_bits_pos[OF n])
    have e: "expoente x = - ?c" using False by (simp add: expoente_def)
    have "?y \<le> of_int (?n + 1)" by simp
    also have "\<dots> \<le> of_int (2 ^ nat ?c)" using b by (simp only: of_int_le_iff) simp
    finally have u: "?y \<le> 2 ^ nat ?c" by simp
    have "(2::rat) ^ nat (?c - 1) = of_int (2 ^ nat (?c - 1))" by simp
    also have "\<dots> \<le> of_int ?n" using b by (simp only: of_int_le_iff)
    also have "\<dots> < ?y" by linarith
    finally have l: "2 ^ nat (?c - 1) < ?y" .
    have p1: "(2::rat) powi (- ?c) = 1 / 2 ^ nat ?c"
      using cp by (simp add: power_int_def field_simps)
    have p2: "(2::rat) powi (1 - ?c) = 1 / 2 ^ nat (?c - 1)"
    proof (cases "?c = 1")
      case True
      then show ?thesis by simp
    next
      case False
      with cp have "1 - ?c < 0" by simp
      then show ?thesis by (simp add: power_int_def field_simps nat_diff_distrib)
    qed
    have "1 / 2 ^ nat ?c \<le> \<bar>x\<bar>"
      using u x(1) by (simp add: field_simps)
    moreover have "\<bar>x\<bar> < 1 / 2 ^ nat (?c - 1)"
      using l x(1) by (simp add: field_simps)
    ultimately show ?thesis by (simp add: e p1 p2)
  qed
  then show "2 powi expoente x \<le> \<bar>x\<bar>" "\<bar>x\<bar> < 2 powi (expoente x + 1)" by simp_all
qed

lemma arredonda_par_erro: "\<bar>of_int (arredonda_par x) - x\<bar> \<le> 1 / 2"
proof -
  have "of_int \<lfloor>x\<rfloor> \<le> x" "x < of_int \<lfloor>x\<rfloor> + 1" by linarith+
  then show ?thesis by (auto simp: arredonda_par_def Let_def)
qed

lemma arredonda_par_int: "arredonda_par (of_int k) = k"
  by (simp add: arredonda_par_def)

lemma arredonda_par_ge: "of_int k \<le> x \<Longrightarrow> k \<le> arredonda_par x"
proof -
  assume "of_int k \<le> x"
  then have "k \<le> \<lfloor>x\<rfloor>" by (simp add: le_floor_iff)
  then show ?thesis by (auto simp: arredonda_par_def Let_def)
qed

lemma powi_dobro: "(2::rat) powi (e - 52) = 2 * 2 powi (e - 53)"
proof -
  have "(2::rat) powi (1 + (e - 53)) = 2 powi 1 * 2 powi (e - 53)"
    by (rule power_int_add) simp
  then show ?thesis by (simp add: algebra_simps)
qed

lemma arredonda_erro:
  assumes "x \<noteq> 0"
  shows "\<bar>arredonda x - x\<bar> \<le> 2 powi (expoente x - 53)"
proof -
  let ?u = "(2::rat) powi (expoente x - 52)"
  have u: "0 < ?u" by simp
  have "arredonda x - x = ?u * (of_int (arredonda_par (x / ?u)) - x / ?u)"
    using assms u by (simp add: arredonda_def algebra_simps)
  then have "\<bar>arredonda x - x\<bar> = ?u * \<bar>of_int (arredonda_par (x / ?u)) - x / ?u\<bar>"
    using u by (simp add: abs_mult)
  also have "\<dots> \<le> ?u * (1 / 2)"
    using u arredonda_par_erro[of "x / ?u"] by (intro mult_left_mono) simp_all
  also have "\<dots> = 2 powi (expoente x - 53)" by (simp add: powi_dobro)
  finally show ?thesis .
qed

lemma powi_menor: "(2::rat) powi a < 2 powi b \<Longrightarrow> a < b"
proof (rule ccontr)
  assume l: "(2::rat) powi a < 2 powi b" and "\<not> a < b"
  then have "b \<le> a" by simp
  then have "(2::rat) powi b \<le> 2 powi a" by (intro power_int_increasing) simp_all
  with l show False by simp
qed

lemma arredonda_exato:
  assumes "\<bar>m\<bar> < 2 ^ 53"
  shows "arredonda (of_int m * 2 powi k) = of_int m * 2 powi k"
proof (cases "m = 0")
  case True
  then show ?thesis by (simp add: arredonda_def)
next
  case False
  let ?x = "of_int m * (2::rat) powi k"
  let ?e = "expoente ?x"
  have x0: "?x \<noteq> 0" using False by simp
  have "2 powi ?e \<le> \<bar>?x\<bar>" by (rule expoente_bounds(1)[OF x0])
  also have "\<bar>?x\<bar> = of_int \<bar>m\<bar> * 2 powi k" by (simp add: abs_mult)
  also have "\<dots> < of_int (2 ^ 53) * 2 powi k"
    using assms by (intro mult_strict_right_mono) simp_all
  also have "\<dots> = 2 powi (53 + k)"
  proof -
    have "(2::rat) powi (53 + k) = 2 powi 53 * 2 powi k" by (rule power_int_add) simp
    then show ?thesis by simp
  qed
  finally have "?e < 53 + k" by (rule powi_menor)
  then have j: "0 \<le> k - (?e - 52)" by simp
  have "?x / 2 powi (?e - 52) = of_int m * 2 powi (k - (?e - 52))"
    by (simp add: power_int_diff)
  also have "\<dots> = of_int (m * 2 ^ nat (k - (?e - 52)))"
    using j by (simp add: power_int_def)
  finally have "arredonda_par (?x / 2 powi (?e - 52)) = m * 2 ^ nat (k - (?e - 52))"
    by (simp only: arredonda_par_int)
  then have "arredonda ?x = of_int (m * 2 ^ nat (k - (?e - 52))) * 2 powi (?e - 52)"
    using x0 by (simp add: arredonda_def)
  also have "\<dots> = of_int m * (2 powi (k - (?e - 52)) * 2 powi (?e - 52))"
    using j by (simp add: power_int_def)
  also have "2 powi (k - (?e - 52)) * 2 powi (?e - 52) = (2::rat) powi k"
    by (simp add: power_int_diff)
  finally show ?thesis .
qed

lemma arredonda_int: "\<bar>m\<bar> < 2 ^ 53 \<Longrightarrow> arredonda (of_int m) = of_int m"
  using arredonda_exato[of m 0] by simp

lemma arredonda_positivo:
  assumes "0 < x"
  shows "2 powi expoente x \<le> arredonda x"
proof -
  let ?e = "expoente x"
  let ?u = "(2::rat) powi (?e - 52)"
  let ?r = "arredonda_par (x / ?u)"
  have x0: "x \<noteq> 0" using assms by simp
  have u: "0 < ?u" by simp
  have p: "(2::rat) powi ?e = of_int (2 ^ 52) * ?u"
  proof -
    have "(2::rat) powi (52 + (?e - 52)) = 2 powi 52 * 2 powi (?e - 52)"
      by (rule power_int_add) simp
    then show ?thesis by simp
  qed
  have "2 powi ?e \<le> x" using expoente_bounds(1)[OF x0] assms by simp
  then have "of_int (2 ^ 52) * ?u \<le> x" by (simp only: p)
  then have "of_int (2 ^ 52) \<le> x / ?u" using u by (simp only: pos_le_divide_eq)
  then have "2 ^ 52 \<le> ?r" by (rule arredonda_par_ge)
  then have "(of_int (2 ^ 52) :: rat) \<le> of_int ?r" by (simp only: of_int_le_iff)
  then have "of_int (2 ^ 52) * ?u \<le> of_int ?r * ?u"
    using u by (intro mult_right_mono) simp_all
  also have "of_int ?r * ?u = arredonda x" using x0 by (simp add: arredonda_def)
  finally show ?thesis by (simp only: p)
qed

lemma arredonda_diadico: "diadico (arredonda x)"
proof (cases "x = 0")
  case True
  have "(0::rat) = of_int 0 / 2 ^ 0" by simp
  then show ?thesis unfolding diadico_def arredonda_def using True by auto
next
  case False
  let ?j = "expoente x - 52"
  let ?r = "arredonda_par (x / 2 powi ?j)"
  have a: "arredonda x = of_int ?r * 2 powi ?j" using False by (simp add: arredonda_def)
  show ?thesis
  proof (cases "0 \<le> ?j")
    case True
    then have "arredonda x = of_int (?r * 2 ^ nat ?j) / 2 ^ 0"
      by (simp add: a power_int_def)
    then show ?thesis unfolding diadico_def by blast
  next
    case False
    then have "arredonda x = of_int ?r / 2 ^ nat (- ?j)"
      by (simp add: a power_int_def field_simps)
    then show ?thesis unfolding diadico_def by blast
  qed
qed

lemma divisor_de_potencia:
  fixes d :: int
  shows "0 < d \<Longrightarrow> d dvd 2 ^ n \<Longrightarrow> \<exists>k. d = 2 ^ k"
proof (induction n arbitrary: d)
  case 0
  then have "d = 1" by simp
  then have "d = 2 ^ 0" by simp
  then show ?case by blast
next
  case (Suc n)
  show ?case
  proof (cases "even d")
    case True
    then obtain d' where d: "d = 2 * d'" by (auto elim: evenE)
    with Suc.prems have "0 < d'" "d' dvd 2 ^ n" by simp_all
    from Suc.IH[OF this] obtain k where "d' = 2 ^ k" by blast
    with d have "d = 2 ^ Suc k" by simp
    then show ?thesis by blast
  next
    case False
    then have "coprime d 2" by simp
    moreover from Suc.prems(2) have "d dvd 2 ^ n * 2" by (simp add: mult.commute)
    ultimately have "d dvd 2 ^ n" by (simp only: coprime_dvd_mult_left_iff)
    from Suc.IH[OF Suc.prems(1) this] show ?thesis .
  qed
qed

lemma diadico_razao:
  assumes "0 < b" "diadico (of_int a / of_int b)"
  shows "\<exists>k. b div gcd a b = 2 ^ k"
proof -
  from assms(2) obtain m n where "(of_int a / of_int b :: rat) = of_int m / 2 ^ n"
    unfolding diadico_def by blast
  then have "(of_int a :: rat) * 2 ^ n = of_int m * of_int b"
    using assms(1) by (simp add: field_simps)
  then have "(of_int (a * 2 ^ n) :: rat) = of_int (m * b)" by simp
  then have eq: "a * 2 ^ n = m * b" by (simp only: of_int_eq_iff)
  let ?g = "gcd a b"
  let ?a = "a div ?g" and ?b = "b div ?g"
  have g: "0 < ?g" using assms(1) by (simp add: gcd_pos_int)
  have a: "a = ?a * ?g" and b: "b = ?b * ?g" by simp_all
  have bp: "0 < ?b" using assms(1) g b by (metis mult_pos_pos zero_less_mult_pos2)
  have cp: "coprime ?b ?a"
    using assms(1) div_gcd_coprime[of a b] by (simp add: coprime_commute)
  have "(?a * ?g) * 2 ^ n = m * (?b * ?g)" using eq a b by simp
  then have "(?a * 2 ^ n) * ?g = (m * ?b) * ?g" by (simp only: mult_ac)
  then have "?a * 2 ^ n = m * ?b" using g assms(1) by (simp only: mult_cancel_right) auto
  then have "?b dvd ?a * 2 ^ n" by simp
  then have "?b dvd 2 ^ n" using cp by (simp only: coprime_dvd_mult_right_iff)
  from divisor_de_potencia[OF bp this] show ?thesis .
qed

lemma diadico_complemento: "diadico x \<Longrightarrow> diadico (1 - x)"
proof -
  assume "diadico x"
  then obtain m n where "x = of_int m / 2 ^ n" unfolding diadico_def by blast
  then have "1 - x = of_int (2 ^ n - m) / 2 ^ n" by (simp add: field_simps)
  then show ?thesis unfolding diadico_def by blast
qed

lemma powi_neg54: "(2::rat) powi (- 54) = 1 / 2 ^ 54"
  by (simp add: power_int_def field_simps)

lemma arredonda_erro_fracao:
  assumes "\<bar>x\<bar> < 1"
  shows "\<bar>arredonda x - x\<bar> \<le> 1 / 2 ^ 54"
proof (cases "x = 0")
  case True
  then show ?thesis by (simp add: arredonda_def)
next
  case False
  have "2 powi expoente x \<le> \<bar>x\<bar>" by (rule expoente_bounds(1)[OF False])
  with assms have "(2::rat) powi expoente x < 2 powi 0" by simp
  then have "expoente x < 0" by (rule powi_menor)
  then have "(2::rat) powi (expoente x - 53) \<le> 2 powi (- 54)"
    by (intro power_int_increasing) simp_all
  with arredonda_erro[OF False] show ?thesis by (simp only: powi_neg54)
qed

lemma qualidade_forma:
  assumes "0 \<le> a" "a \<le> INT_MAX" "0 < b" "b \<le> INT_MAX"
  shows "calcular_qualidade a b = arredonda (1 - arredonda (of_int a / of_int b))"
proof -
  have "\<bar>a\<bar> < 2 ^ 53" "\<bar>b\<bar> < 2 ^ 53" using assms by (simp_all add: INT_MAX_def)
  then show ?thesis
    using assms(3)
    by (simp add: calcular_qualidade_def double_sub_def double_div_def double_de_int_def
        arredonda_int)
qed

lemma qualidade_erro:
  assumes "0 \<le> a" "a \<le> b" "0 < b" "b \<le> INT_MAX"
  shows "\<bar>calcular_qualidade a b - (1 - of_int a / of_int b)\<bar> \<le> 1 / 2 ^ 53"
proof -
  let ?q = "of_int a / of_int b :: rat"
  let ?X = "arredonda ?q"
  have f: "calcular_qualidade a b = arredonda (1 - ?X)"
    using assms by (intro qualidade_forma) simp_all
  have um: "arredonda 1 = 1" using arredonda_int[of 1] by simp
  have q: "0 \<le> ?q" "?q \<le> 1" using assms by simp_all
  show ?thesis
  proof (cases "a = 0")
    case True
    then have q0: "?q = 0" by simp
    have "arredonda (1 - arredonda ?q) = 1"
      by (simp only: q0) (simp add: arredonda_def[of 0] um)
    then have "calcular_qualidade a b - (1 - ?q) = 0" by (simp only: f q0)
    then show ?thesis by (simp only:) simp
  next
    case a0: False
    then have qp: "0 < ?q" using assms by simp
    have Xp: "0 < ?X"
      using arredonda_positivo[OF qp] zero_less_power_int[of "2::rat" "expoente ?q"]
      by linarith
    have e1: "\<bar>?X - ?q\<bar> \<le> 1 / 2 ^ 54"
    proof (cases "a = b")
      case True
      then have "?q = 1" using assms by simp
      then show ?thesis by (simp add: um)
    next
      case False
      then have "\<bar>?q\<bar> < 1" using assms q by simp
      then show ?thesis by (rule arredonda_erro_fracao)
    qed
    have "(1::rat) / 2 ^ 54 < 1" by simp
    with e1 q have "?X < 2" by linarith
    with Xp have "\<bar>1 - ?X\<bar> < 1" by linarith
    then have e2: "\<bar>arredonda (1 - ?X) - (1 - ?X)\<bar> \<le> 1 / 2 ^ 54"
      by (rule arredonda_erro_fracao)
    have "\<bar>arredonda (1 - ?X) - (1 - ?q)\<bar> \<le> 1 / 2 ^ 54 + 1 / 2 ^ 54"
      using e1 e2 by linarith
    then show ?thesis by (simp add: f)
  qed
qed

lemma qualidade_exata_iff:
  assumes "0 \<le> a" "a \<le> b" "0 < b" "b \<le> INT_MAX"
  shows "calcular_qualidade a b = 1 - of_int a / of_int b \<longleftrightarrow> (\<exists>k. b div gcd a b = 2 ^ k)"
proof
  let ?q = "of_int a / of_int b :: rat"
  have f: "calcular_qualidade a b = arredonda (1 - arredonda ?q)"
    using assms by (intro qualidade_forma) simp_all
  {
    assume "calcular_qualidade a b = 1 - ?q"
    then have "diadico (1 - ?q)" using arredonda_diadico[of "1 - arredonda ?q"] by (simp add: f)
    then have "diadico (1 - (1 - ?q))" by (rule diadico_complemento)
    then have "diadico ?q" by simp
    with assms(3) show "\<exists>k. b div gcd a b = 2 ^ k" by (rule diadico_razao)
  }
  {
    assume "\<exists>k. b div gcd a b = 2 ^ k"
    then obtain k where k: "b div gcd a b = 2 ^ k" by blast
    let ?g = "gcd a b"
    let ?a = "a div ?g"
    have g: "0 < ?g" using assms(3) by (simp add: gcd_pos_int)
    have a: "a = ?a * ?g" by simp
    have "b = (b div ?g) * ?g" by simp
    then have b: "b = 2 ^ k * ?g" by (simp only: k)
    have ap: "0 \<le> ?a" using assms(1) g by (simp add: pos_imp_zdiv_nonneg_iff)
    have "?a \<le> b div ?g" using assms(2) g by (rule zdiv_mono1)
    then have ak: "?a \<le> 2 ^ k" by (simp only: k)
    have "1 \<le> ?g" using g by linarith
    then have "2 ^ k * 1 \<le> 2 ^ k * ?g" by (intro mult_left_mono) simp_all
    then have kb: "(2::int) ^ k \<le> b" using b by simp
    then have lim: "(2::int) ^ k < 2 ^ 53" using assms(4) by (simp add: INT_MAX_def)
    have ra: "(of_int ?a :: rat) * of_int ?g = of_int a"
      by (simp only: of_int_mult[symmetric]) simp
    have "(of_int b :: rat) = of_int (2 ^ k * ?g)" by (rule arg_cong[OF b])
    then have rb: "(2 ^ k :: rat) * of_int ?g = of_int b" by simp
    have g0: "(of_int ?g :: rat) \<noteq> 0" using g by simp
    have "?q = (of_int ?a * of_int ?g) / (2 ^ k * of_int ?g)" by (simp only: ra rb)
    also have "\<dots> = of_int ?a / 2 ^ k" using g0 by (rule mult_divide_mult_cancel_right)
    also have "\<dots> = of_int ?a * 2 powi (- int k)"
      by (simp add: power_int_def field_simps)
    finally have q: "?q = of_int ?a * 2 powi (- int k)" .
    have "arredonda ?q = ?q"
      unfolding q using ap ak lim by (intro arredonda_exato) simp
    moreover have "1 - ?q = of_int (2 ^ k - ?a) * 2 powi (- int k)"
      unfolding q by (simp add: power_int_def field_simps)
    moreover have "arredonda (of_int (2 ^ k - ?a) * 2 powi (- int k))
        = of_int (2 ^ k - ?a) * 2 powi (- int k)"
      using ap ak lim by (intro arredonda_exato) simp
    ultimately show "calcular_qualidade a b = 1 - ?q" by (simp add: f)
  }
qed

lemma filtro_disjuncao:
  "length (filter (\<lambda>p. P p \<or> Q p) ps) \<le> length (filter P ps) + length (filter Q ps)"
  by (induction ps) auto

lemma cobertura_conta:
  "length (filter (\<lambda>p. \<exists>iv \<in> set c. cobre p iv) ps)
     \<le> sum_list (map (\<lambda>iv. length (filter (\<lambda>p. cobre p iv) ps)) c)"
proof (induction c)
  case Nil
  show ?case by simp
next
  case (Cons x c)
  have "length (filter (\<lambda>p. \<exists>iv \<in> set (x # c). cobre p iv) ps)
      = length (filter (\<lambda>p. cobre p x \<or> (\<exists>iv \<in> set c. cobre p iv)) ps)"
    by simp
  also have "\<dots> \<le> length (filter (\<lambda>p. cobre p x) ps)
                   + length (filter (\<lambda>p. \<exists>iv \<in> set c. cobre p iv) ps)"
    by (rule filtro_disjuncao)
  finally show ?case using Cons.IH by simp
qed

lemma soma_limitada:
  "\<forall>x \<in> set c. f x \<le> (k::nat) \<Longrightarrow> sum_list (map f c) \<le> k * length c"
  by (induction c) auto

lemma cobertura_tamanho:
  assumes "cobre_todos ps (set c)" "\<forall>iv \<in> set c. length (filter (\<lambda>p. cobre p iv) ps) \<le> k"
  shows "length ps \<le> k * length c"
proof -
  have "filter (\<lambda>p. \<exists>iv \<in> set c. cobre p iv) ps = ps"
    using assms(1) by (simp add: cobre_todos_def)
  with cobertura_conta[of c ps] soma_limitada[OF assms(2)] show ?thesis by simp
qed

lemma medio_tres:
  "\<forall>iv \<in> set medio_intervalos. length (filter (\<lambda>p. cobre p iv) medio_pontos) \<le> 3"
  by (simp add: medio_intervalos_def medio_pontos_def cobre_def)

lemma medio_quatro:
  "cobre_todos medio_pontos
     (set [\<lparr>inicio = 5, fim = 28\<rparr>, \<lparr>inicio = 20, fim = 42\<rparr>, \<lparr>inicio = 48, fim = 68\<rparr>,
           \<lparr>inicio = 60, fim = 82\<rparr>])"
  by (simp add: cobre_todos_def medio_pontos_def cobre_def)

lemma medio_tamanho:
  "n_melhor_solucao (snd (resolver_backtracking
      (preparar_backtracking medio_pontos medio_intervalos []))) = 4"
proof -
  let ?s = "preparar_backtracking medio_pontos medio_intervalos []"
  let ?s' = "snd (resolver_backtracking ?s)"
  let ?c = "[\<lparr>inicio = 5, fim = 28\<rparr>, \<lparr>inicio = 20, fim = 42\<rparr>, \<lparr>inicio = 48, fim = 68\<rparr>,
            \<lparr>inicio = 60, fim = 82\<rparr>]"
  note p = preparado_campos
  have m: "melhor_ok ?s" by (rule melhor_ok_preparado) (simp_all add: p)
  have sf: "sem_falhas (alocador ?s)" by (simp add: p sem_falhas_def)
  have ne: "pontos ?s \<noteq> []" by (simp add: p medio_pontos_def)
  have "set ?c \<subseteq> set (intervalos ?s)" by (simp add: p medio_intervalos_def)
  moreover have "cobre_todos (pontos ?s) (set ?c)" using medio_quatro by (simp add: p)
  ultimately have "n_melhor_solucao ?s' \<le> int (length ?c)"
    by (rule exato_minimo_listas[OF m sf ne])
  then have le: "n_melhor_solucao ?s' \<le> 4" by simp
  then have "n_melhor_solucao ?s' \<noteq> INT_MAX" by (simp add: INT_MAX_def)
  note v = exato_cobertura[OF m this]
  have "\<forall>iv \<in> set (melhor ?s'). length (filter (\<lambda>p. cobre p iv) medio_pontos) \<le> 3"
    using v(3) medio_tres by (auto simp: p)
  with v(4) have "length medio_pontos \<le> 3 * length (melhor ?s')"
    by (intro cobertura_tamanho) (simp_all add: p)
  moreover have "length medio_pontos = 10" by (simp add: medio_pontos_def)
  ultimately have "10 \<le> 3 * nat (n_melhor_solucao ?s')"
    by (simp only: v(2))
  with le v(1) show ?thesis by linarith
qed

lemma qualidade_de_um_terco:
  "calcular_qualidade 4 12 = 6004799503160662 / 9007199254740992"
  by code_simp

lemma qualidade_bt_sucesso:
  "fst (c_alloc (alocador s)) \<Longrightarrow>
   qualidade_backtracking s =
     calcular_qualidade (n_melhor_solucao (snd (resolver_backtracking s))) (n_intervalos s) \<and>
   n_solucao_m (fst (resolver_backtracking s)) = n_melhor_solucao (snd (resolver_backtracking s))"
  by (simp add: qualidade_backtracking_def split_beta Let_def resolver_bt_sucesso n_intervalos_def
      bt_intervalos inicio_busca_def)

lemma exato_limites:
  assumes "melhor_ok s" "n_melhor_solucao (snd (resolver_backtracking s)) \<noteq> INT_MAX"
  shows "0 \<le> n_melhor_solucao (snd (resolver_backtracking s))"
    "n_melhor_solucao (snd (resolver_backtracking s)) \<le> n_intervalos s"
proof -
  let ?s' = "snd (resolver_backtracking s)"
  from resolver_bt_melhor_limite[OF assms(1)] assms(2)
  have v: "0 \<le> n_melhor_solucao ?s'" "length (melhor ?s') = nat (n_melhor_solucao ?s')"
      "subseq (melhor ?s') (intervalos s)"
    by (auto simp: melhor_ok_def)
  from v(3) have "length (melhor ?s') \<le> length (intervalos s)" by (rule list_emb_length)
  with v show "0 \<le> n_melhor_solucao ?s'" "n_melhor_solucao ?s' \<le> n_intervalos s"
    by (simp_all add: n_intervalos_def)
qed

lemma qualidade_guloso_sucesso:
  assumes "alocacoes_guloso s"
  shows "\<exists>s'. resolver_guloso s = Some (\<lparr>n_solucao_mg = n_solucao_g s'\<rparr>, s') \<and>
           qualidade_guloso s = Some (calcular_qualidade (n_solucao_g s') (n_intervalos_g s)) \<and>
           0 \<le> n_solucao_g s' \<and> n_solucao_g s' \<le> n_intervalos_g s"
proof -
  from resolver_guloso_final[OF assms] obtain s' where
    s': "resolver_guloso s = Some (\<lparr>n_solucao_mg = n_solucao_g s'\<rparr>, s')" "inv_guloso s'"
    "intervalos_g s' = intervalos_g s" by blast
  have "qualidade_guloso s = Some (calcular_qualidade (n_solucao_g s') (n_intervalos_g s))"
    using assms s'(1,3)
    by (simp add: qualidade_guloso_def alocacoes_guloso_def split_beta n_intervalos_g_def)
  moreover have "0 \<le> n_solucao_g s'" using s'(2) by (simp add: inv_guloso_def)
  moreover have "n_solucao_g s' \<le> n_intervalos_g s"
    using inv_guloso_limites(1)[OF s'(2)] by (simp add: s'(3) n_intervalos_g_def)
  ultimately show ?thesis using s'(1) by blast
qed

section \<open>Closed-interval semantics\<close>

text \<open>
  Claim C8. In both programs the coverage predicate answers 1 exactly when
  \<open>inicio \<le> posicao \<le> fim\<close> (as signed integers) and 0 otherwise; the bounds themselves
  are covered, and the point at position 12 is covered by the interval \<open>[0, 12]\<close>.
\<close>

theorem ponto_coberto_closed_interval:
  "(ponto_coberto_por_intervalo p iv = 1 \<longleftrightarrow>
      sint (inicio iv) \<le> sint (posicao p) \<and> sint (posicao p) \<le> sint (fim iv))
   \<and> (ponto_coberto_por_intervalo p iv = 0 \<longleftrightarrow>
      \<not> (sint (inicio iv) \<le> sint (posicao p) \<and> sint (posicao p) \<le> sint (fim iv)))
   \<and> (ponto_coberto_por_intervalo_backtracking p iv = 1 \<longleftrightarrow>
      sint (inicio iv) \<le> sint (posicao p) \<and> sint (posicao p) \<le> sint (fim iv))
   \<and> (ponto_coberto_por_intervalo_backtracking p iv = 0 \<longleftrightarrow>
      \<not> (sint (inicio iv) \<le> sint (posicao p) \<and> sint (posicao p) \<le> sint (fim iv)))
   \<and> ponto_coberto_por_intervalo \<lparr>id_p = 1, posicao = 12\<rparr> \<lparr>inicio = 0, fim = 12\<rparr> = 1
   \<and> ponto_coberto_por_intervalo_backtracking \<lparr>id_p = 1, posicao = 12\<rparr> \<lparr>inicio = 0, fim = 12\<rparr> = 1"
  by (simp add: ponto_coberto_por_intervalo_def ponto_coberto_por_intervalo_backtracking_def)

section \<open>The exact solver finds a minimum cover\<close>

text \<open>
  Claim C1. Take a struct as \<^verbatim>\<open>inicializar_problema_backtracking\<close> and a scenario leave
  it (\<open>n_melhor_solucao\<close> at \<open>INT_MAX\<close>, \<open>melhor_solucao\<close> \<^verbatim>\<open>NULL\<close>) with at least one
  point, fewer than \<open>INT_MAX\<close> intervals and an allocator that does not fail. If some
  set of the intervals covers every point, then after \<^verbatim>\<open>resolver_backtracking\<close> the
  best solution has \<open>n_melhor_solucao\<close> members, is a subsequence of the interval array,
  covers every point, and no covering set or list of intervals from the array is
  smaller; the metrics report that size. If no set of the intervals covers every point,
  \<open>n_melhor_solucao\<close> is still \<open>INT_MAX\<close>. The order of the intervals plays no role.
\<close>

theorem resolver_backtracking_minimum_cover:
  assumes "pontos s \<noteq> []" and "n_intervalos s < INT_MAX" and "sem_falhas (alocador s)"
    and "n_melhor_solucao s = INT_MAX" and "melhor_solucao s = None"
  shows "(if \<exists>A. A \<subseteq> set (intervalos s) \<and> cobre_todos (pontos s) A
          then n_melhor_solucao (snd (resolver_backtracking s))
                  = int (length (melhor (snd (resolver_backtracking s)))) \<and>
               n_solucao_m (fst (resolver_backtracking s))
                  = int (length (melhor (snd (resolver_backtracking s)))) \<and>
               subseq (melhor (snd (resolver_backtracking s))) (intervalos s) \<and>
               cobre_todos (pontos s) (set (melhor (snd (resolver_backtracking s)))) \<and>
               (\<forall>A. A \<subseteq> set (intervalos s) \<and> cobre_todos (pontos s) A
                    \<longrightarrow> length (melhor (snd (resolver_backtracking s))) \<le> card A) \<and>
               (\<forall>c. set c \<subseteq> set (intervalos s) \<and> cobre_todos (pontos s) (set c)
                    \<longrightarrow> length (melhor (snd (resolver_backtracking s))) \<le> length c)
          else n_melhor_solucao (snd (resolver_backtracking s)) = INT_MAX \<and>
               n_solucao_m (fst (resolver_backtracking s)) = INT_MAX)"
proof -
  let ?s' = "backtracking_recursivo (inicio_busca s) 0"
  have ok: "fst (c_alloc (alocador s))" using assms(3) by (simp add: sem_falhas_alloc)
  have m: "melhor_ok s" using assms(4,5) by (rule melhor_ok_preparado)
  note b = busca_inicio[OF m]
  have res: "snd (resolver_backtracking s) = ?s'"
    "n_solucao_m (fst (resolver_backtracking s)) = n_melhor_solucao ?s'"
    by (simp_all add: resolver_bt_sucesso[OF ok])
  show ?thesis
  proof (cases "\<exists>A. A \<subseteq> set (intervalos s) \<and> cobre_todos (pontos s) A")
    case True
    then obtain A where A: "A \<subseteq> set (intervalos s)" "cobre_todos (pontos s) A" by blast
    have "int (card A) \<le> int (length (intervalos s))"
      using A(1) card_mono[of "set (intervalos s)" A] card_length[of "intervalos s"] by simp
    with b(6)[OF assms(3) assms(1) A] assms(2) have "n_melhor_solucao ?s' \<noteq> INT_MAX"
      by (simp add: n_intervalos_def)
    with b(1) have v: "0 \<le> n_melhor_solucao ?s'" "length (melhor ?s') = nat (n_melhor_solucao ?s')"
      "subseq (melhor ?s') (intervalos s)" "cobre_todos (pontos s) (set (melhor ?s'))"
      by (simp_all add: melhor_ok_def b(3,4))
    have mn: "length (melhor ?s') \<le> card B"
      if "B \<subseteq> set (intervalos s)" "cobre_todos (pontos s) B" for B
      using b(6)[OF assms(3) assms(1) that] v(1,2) by simp
    have "length (melhor ?s') \<le> length c"
      if "set c \<subseteq> set (intervalos s)" "cobre_todos (pontos s) (set c)" for c
      using mn[OF that] card_length[of c] by simp
    with v mn show ?thesis unfolding if_P[OF True] by (simp add: res)
  next
    case False
    have "n_melhor_solucao ?s' = INT_MAX"
    proof (rule ccontr)
      assume "n_melhor_solucao ?s' \<noteq> INT_MAX"
      with b(1) have v: "subseq (melhor ?s') (intervalos s)" "cobre_todos (pontos s) (set (melhor ?s'))"
        by (simp_all add: melhor_ok_def b(3,4))
      from v(1) have "set (melhor ?s') \<subseteq> set (intervalos s)"
        by (rule subseq_conjunto)
      with False v(2) show False by blast
    qed
    then show ?thesis unfolding if_not_P[OF False] by (simp add: res)
  qed
qed

theorem resolver_backtracking_minimum_cover_witness:
  "pontos (preparar_backtracking exemplo_pontos exemplo_intervalos []) \<noteq> [] \<and>
   n_intervalos (preparar_backtracking exemplo_pontos exemplo_intervalos []) < INT_MAX \<and>
   sem_falhas (alocador (preparar_backtracking exemplo_pontos exemplo_intervalos [])) \<and>
   n_melhor_solucao (preparar_backtracking exemplo_pontos exemplo_intervalos []) = INT_MAX \<and>
   melhor_solucao (preparar_backtracking exemplo_pontos exemplo_intervalos []) = None \<and>
   cobre_todos exemplo_pontos (set exemplo_intervalos) \<and>
   n_solucao_m (fst (resolver_backtracking (preparar_backtracking exemplo_pontos exemplo_intervalos [])))
     = int (length (melhor (snd (resolver_backtracking
                                   (preparar_backtracking exemplo_pontos exemplo_intervalos []))))) \<and>
   cobre_todos exemplo_pontos
     (set (melhor (snd (resolver_backtracking
                          (preparar_backtracking exemplo_pontos exemplo_intervalos [])))))"
proof -
  let ?s = "preparar_backtracking exemplo_pontos exemplo_intervalos []"
  have h: "pontos ?s \<noteq> []" "n_intervalos ?s < INT_MAX" "sem_falhas (alocador ?s)"
    "n_melhor_solucao ?s = INT_MAX" "melhor_solucao ?s = None"
    by (simp_all add: preparar_backtracking_def inicializar_problema_backtracking_def
        n_intervalos_def INT_MAX_def sem_falhas_def exemplo_pontos_def exemplo_intervalos_def)
  have f: "pontos ?s = exemplo_pontos" "intervalos ?s = exemplo_intervalos"
    by (simp_all add: preparar_backtracking_def inicializar_problema_backtracking_def)
  have e: "\<exists>A. A \<subseteq> set (intervalos ?s) \<and> cobre_todos (pontos ?s) A"
    using exemplo_cobre unfolding f by blast
  from resolver_backtracking_minimum_cover[OF h] show ?thesis
    unfolding if_P[OF e] using h exemplo_cobre by (simp add: f)
qed

section \<open>The partial solution is restored\<close>

text \<open>
  Claim C9. For every state and index, \<^verbatim>\<open>backtracking_recursivo\<close> returns with
  \<open>n_solucao_atual\<close> as it found it and with the cells of \<open>solucao_atual\<close> below that
  count unchanged (the buffer keeps its length); so the call at index 0 made by
  \<^verbatim>\<open>resolver_backtracking\<close> after it has set \<open>n_solucao_atual\<close> to 0 ends with 0.
\<close>

theorem backtracking_recursivo_restores_partial:
  "n_solucao_atual (backtracking_recursivo problema indice) = n_solucao_atual problema \<and>
   take (nat (n_solucao_atual problema)) (solucao_atual (backtracking_recursivo problema indice))
     = take (nat (n_solucao_atual problema)) (solucao_atual problema) \<and>
   length (solucao_atual (backtracking_recursivo problema indice)) = length (solucao_atual problema) \<and>
   n_solucao_atual (backtracking_recursivo (problema\<lparr>n_solucao_atual := 0\<rparr>) 0) = 0 \<and>
   n_solucao_atual (snd (resolver_backtracking problema))
     = (if fst (c_alloc (alocador problema)) then 0 else n_solucao_atual problema)"
proof -
  have "quadro problema (backtracking_recursivo problema indice)" by (rule bt_quadro)
  moreover have "quadro (problema\<lparr>n_solucao_atual := 0\<rparr>)
       (backtracking_recursivo (problema\<lparr>n_solucao_atual := 0\<rparr>) 0)" by (rule bt_quadro)
  moreover have "quadro (inicio_busca problema) (backtracking_recursivo (inicio_busca problema) 0)"
    by (rule bt_quadro)
  ultimately show ?thesis
    by (cases "fst (c_alloc (alocador problema))")
       (simp_all add: quadro_def resolver_bt_sucesso resolver_bt_falha inicio_busca_def)
qed

section \<open>The choice of the greedy solver\<close>

text \<open>
  Claim C5. In a pass of the greedy loop (not every point is covered) with anchor \<open>a\<close>,
  the first point whose mark is 0, and with intervals whose lengths fit a C \<^verbatim>\<open>int\<close>:
  if some interval contains the anchor, \<^verbatim>\<open>encontrar_melhor_intervalo\<close> returns an index
  \<open>r\<close> of an interval that contains the anchor and is preferred to every interval that
  contains it (more unmarked points, then smaller \<open>fim - inicio\<close>, then smaller index),
  and the pass appends that interval and marks its points; if no interval contains the
  anchor, the function returns -1, the pass leaves the loop, and the loop returns the
  state as it is, with the remaining points unmarked and the covered count different
  from the number of points.
\<close>

theorem guloso_iteracao_selects_best_for_anchor:
  assumes "todos_pontos_cobertos s = 0" and "primeiro_descoberto s a"
    and "\<forall>iv \<in> set (intervalos_g s). tamanho_representavel iv"
  shows "(if \<exists>i<length (intervalos_g s). cobre (pontos_g s ! a) (intervalos_g s ! i)
          then \<exists>r<length (intervalos_g s).
                 cobre (pontos_g s ! a) (intervalos_g s ! r) \<and>
                 (\<forall>j<length (intervalos_g s).
                     cobre (pontos_g s ! a) (intervalos_g s ! j) \<longrightarrow> preferido s r j) \<and>
                 encontrar_melhor_intervalo s a = int r \<and>
                 guloso_iteracao s =
                   Some (marcar_pontos_cobertos
                           (s\<lparr>solucao_g := (solucao_g s)[nat (n_solucao_g s) := intervalos_g s ! r],
                              n_solucao_g := n_solucao_g s + 1\<rparr>)
                           (intervalos_g s ! r))
          else encontrar_melhor_intervalo s a = - 1 \<and> guloso_iteracao s = None \<and>
               guloso_laco s = Some s)"
proof -
  from assms(2) have a: "a < length (pontos_g s)" "pontos_cobertos_g s ! a = 0"
    by (simp_all add: primeiro_descoberto_def)
  from encontrar_resultado[OF a] show ?thesis
  proof (elim disjE exE conjE)
    assume n: "\<forall>j<length (intervalos_g s). \<not> candidato s a j" "encontrar_melhor_intervalo s a = - 1"
    then have c: "\<not> (\<exists>i<length (intervalos_g s). cobre (pontos_g s ! a) (intervalos_g s ! i))"
      by (simp add: candidato_def)
    have "guloso_iteracao s = None" by (rule iteracao_nenhum[OF assms(2) n(2)])
    moreover from this have "guloso_laco s = Some s" by (subst guloso_laco.simps) simp
    ultimately show ?thesis unfolding if_not_P[OF c] using n(2) by simp
  next
    fix r
    assume r: "r < length (intervalos_g s)" "candidato s a r" "encontrar_melhor_intervalo s a = int r"
      "\<forall>j<length (intervalos_g s). candidato s a j \<longrightarrow> preferido32 s r j"
    then have c: "\<exists>i<length (intervalos_g s). cobre (pontos_g s ! a) (intervalos_g s ! i)"
      by (auto simp: candidato_def)
    have p: "\<forall>j<length (intervalos_g s).
               cobre (pontos_g s ! a) (intervalos_g s ! j) \<longrightarrow> preferido s r j"
      using r(4) preferido32_preferido[OF assms(3) r(1)] by (simp add: candidato_def)
    have "guloso_iteracao s = Some (escolhe s r)"
      by (rule iteracao_escolhe[OF assms(1,2) r(3)])
    with r(1,2,3) p show ?thesis
      unfolding if_P[OF c] by (auto simp: escolhe_def candidato_def)
  qed
qed

theorem guloso_iteracao_selects_best_for_anchor_witness:
  "todos_pontos_cobertos (inicio_guloso (preparar_guloso exemplo_pontos exemplo_intervalos_g [])) = 0 \<and>
   primeiro_descoberto (inicio_guloso (preparar_guloso exemplo_pontos exemplo_intervalos_g [])) 0 \<and>
   tamanho_representavel \<lparr>inicio = 0, fim = 10\<rparr> \<and>
   tamanho_representavel \<lparr>inicio = 50, fim = 70\<rparr> \<and>
   cobre (exemplo_pontos ! 0) (exemplo_intervalos_g ! 0) \<and>
   (\<exists>r<length exemplo_intervalos_g.
       cobre (exemplo_pontos ! 0) (exemplo_intervalos_g ! r) \<and>
       encontrar_melhor_intervalo
         (inicio_guloso (preparar_guloso exemplo_pontos exemplo_intervalos_g [])) 0 = int r)"
proof -
  let ?s = "inicio_guloso (preparar_guloso exemplo_pontos exemplo_intervalos_g [])"
  have f: "pontos_g ?s = exemplo_pontos" "intervalos_g ?s = exemplo_intervalos_g"
    by (simp_all add: inicio_guloso_def exemplo_preparado_g)
  have pc: "pontos_cobertos_g ?s = replicate (length exemplo_pontos) 0" "n_pontos_cobertos_g ?s = 0"
    by (simp_all add: inicio_guloso_def exemplo_preparado_g)
  have h1: "todos_pontos_cobertos ?s = 0"
    unfolding todos_pontos_cobertos_def n_pontos_g_def f pc by (simp add: exemplo_pontos_def)
  have h2: "primeiro_descoberto ?s 0"
    unfolding primeiro_descoberto_def f pc by (simp add: exemplo_pontos_def)
  have t: "tamanho_representavel \<lparr>inicio = 0, fim = 10\<rparr>"
    "tamanho_representavel \<lparr>inicio = 50, fim = 70\<rparr>"
    by (simp_all add: tamanho_representavel_def tamanho_def)
  then have h3: "\<forall>iv \<in> set (intervalos_g ?s). tamanho_representavel iv"
    unfolding f by (simp add: exemplo_intervalos_g_def)
  have c0: "cobre (exemplo_pontos ! 0) (exemplo_intervalos_g ! 0)"
    by (simp add: cobre_def exemplo_pontos_def exemplo_intervalos_g_def)
  then have c: "\<exists>i<length exemplo_intervalos_g. cobre (exemplo_pontos ! 0) (exemplo_intervalos_g ! i)"
    by (auto simp: exemplo_intervalos_g_def)
  note th = guloso_iteracao_selects_best_for_anchor[OF h1 h2 h3, unfolded f]
  from th[unfolded if_P[OF c]] h1 h2 t c0
  show ?thesis by blast
qed

text \<open>
  Beyond that bound the subtraction \<^verbatim>\<open>fim - inicio\<close> overflows, which C leaves undefined;
  with the two's complement result of the model an interval of length 4000000000 would
  count as shorter than an interval of length 0.
\<close>

lemma tamanho32_beyond_int:
  "tamanho \<lparr>inicio = - 2000000000, fim = 2000000000\<rparr> = 4000000000 \<and>
   tamanho32 \<lparr>inicio = - 2000000000, fim = 2000000000\<rparr> = - 294967296"
  by (simp add: tamanho_def tamanho32_def)

section \<open>Distinct indices and termination of the greedy solver\<close>

text \<open>
  Claim C10. When its two allocations succeed, \<^verbatim>\<open>resolver_guloso\<close> returns (the loop
  ends), and its cover is the list of the intervals at pairwise distinct indices of the
  interval array; its size is at most the number of intervals and at most the number of
  points. The loop starts in a state that satisfies the invariant \<open>inv_guloso\<close>, and
  every pass from a state that satisfies it keeps it, adds one interval and strictly
  increases the covered count, which never exceeds the number of points.
\<close>

theorem resolver_guloso_distinct_indices_terminates:
  assumes "alocacoes_guloso s"
  shows "\<exists>s'. resolver_guloso s = Some (\<lparr>n_solucao_mg = n_solucao_g s'\<rparr>, s') \<and>
           (\<exists>is. distinct is \<and> (\<forall>i \<in> set is. i < length (intervalos_g s)) \<and>
                 sol_g s' = map ((!) (intervalos_g s)) is \<and> int (length is) = n_solucao_g s') \<and>
           n_solucao_g s' \<le> int (length (intervalos_g s)) \<and>
           n_solucao_g s' \<le> int (length (pontos_g s)) \<and>
           inv_guloso (inicio_guloso s) \<and>
           (\<forall>t t'. inv_guloso t \<and> guloso_iteracao t = Some t' \<longrightarrow>
                inv_guloso t' \<and> n_pontos_cobertos_g t < n_pontos_cobertos_g t' \<and>
                n_pontos_cobertos_g t' \<le> int (length (pontos_g t)) \<and>
                n_solucao_g t' = n_solucao_g t + 1)"
proof -
  from resolver_guloso_final[OF assms] obtain s' where
    s': "resolver_guloso s = Some (\<lparr>n_solucao_mg = n_solucao_g s'\<rparr>, s')" "inv_guloso s'"
    "pontos_g s' = pontos_g s" "intervalos_g s' = intervalos_g s" by blast
  from s'(2) obtain "is" where "is": "distinct is" "\<forall>i \<in> set is. i < length (intervalos_g s')"
    "sol_g s' = map ((!) (intervalos_g s')) is"
    unfolding inv_guloso_def by blast
  have "int (length is) = n_solucao_g s'"
    using inv_guloso_limites(3)[OF s'(2)] s'(2) "is"(3) by (simp add: inv_guloso_def)
  with "is" have e: "\<exists>is. distinct is \<and> (\<forall>i \<in> set is. i < length (intervalos_g s)) \<and>
                 sol_g s' = map ((!) (intervalos_g s)) is \<and> int (length is) = n_solucao_g s'"
    unfolding s'(4) by blast
  have it: "inv_guloso t' \<and> n_pontos_cobertos_g t < n_pontos_cobertos_g t' \<and>
            n_pontos_cobertos_g t' \<le> int (length (pontos_g t)) \<and> n_solucao_g t' = n_solucao_g t + 1"
    if t: "inv_guloso t" "guloso_iteracao t = Some t'" for t t'
  proof -
    from iteracao_casos[OF t(1)] t(2) obtain a r where
      a: "primeiro_descoberto t a" "r < length (intervalos_g t)" "candidato t a r"
      "t' = escolhe t r" by auto
    note e = escolhe_inv[OF t(1) a(1,2,3)]
    then have "inv_guloso t'" by (simp add: a(4))
    from cobertos_limite[OF this] e show ?thesis by (simp add: a(4))
  qed
  show ?thesis
    using s'(1) e inv_guloso_limites(1,2)[OF s'(2)] inv_inicio_guloso it
    unfolding s'(3,4) by blast
qed

theorem resolver_guloso_distinct_indices_terminates_witness:
  "alocacoes_guloso (preparar_guloso exemplo_pontos exemplo_intervalos_g []) \<and>
   (\<exists>s'. resolver_guloso (preparar_guloso exemplo_pontos exemplo_intervalos_g [])
            = Some (\<lparr>n_solucao_mg = n_solucao_g s'\<rparr>, s') \<and>
         (\<exists>is. distinct is \<and> sol_g s' = map ((!) exemplo_intervalos_g) is) \<and>
         n_solucao_g s' \<le> int (length exemplo_intervalos_g) \<and>
         n_solucao_g s' \<le> int (length exemplo_pontos))"
  using resolver_guloso_distinct_indices_terminates[OF exemplo_preparado_g(2)]
        exemplo_preparado_g(2)
  by (simp add: exemplo_preparado_g(3,4)) blast

section \<open>What a returned cover covers\<close>

text \<open>
  Claim C4. For the exact solver (prepared struct, at least one point, fewer than
  \<open>INT_MAX\<close> intervals, no allocation failure): when \<open>n_melhor_solucao\<close> is not
  \<open>INT_MAX\<close> after \<^verbatim>\<open>resolver_backtracking\<close>, the best solution covers every point and
  each of its members contains a point that no earlier member contains. For the greedy
  solver (its two allocations succeed): each member of its cover contains a point that
  no earlier member contains, and when the covered count equals the number of points the
  cover contains every point.
\<close>

theorem covers_contain_every_point_and_each_member_adds:
  assumes "pontos sb \<noteq> []" and "n_intervalos sb < INT_MAX" and "sem_falhas (alocador sb)"
    and "n_melhor_solucao sb = INT_MAX" and "melhor_solucao sb = None"
    and "alocacoes_guloso sg"
  shows "(n_melhor_solucao (snd (resolver_backtracking sb)) \<noteq> INT_MAX \<longrightarrow>
            cobre_todos (pontos sb) (set (melhor (snd (resolver_backtracking sb)))) \<and>
            cada_um_cobre_novo (pontos sb) (melhor (snd (resolver_backtracking sb)))) \<and>
         (\<exists>sg'. resolver_guloso sg = Some (\<lparr>n_solucao_mg = n_solucao_g sg'\<rparr>, sg') \<and>
                cada_um_cobre_novo (pontos_g sg) (sol_g sg') \<and>
                (todos_pontos_cobertos sg' \<noteq> 0 \<longrightarrow> cobre_todos (pontos_g sg) (set (sol_g sg'))))"
proof -
  let ?s' = "snd (resolver_backtracking sb)"
  have m: "melhor_ok sb" using assms(4,5) by (rule melhor_ok_preparado)
  have ex: "cobre_todos (pontos sb) (set (melhor ?s')) \<and> cada_um_cobre_novo (pontos sb) (melhor ?s')"
    if n: "n_melhor_solucao ?s' \<noteq> INT_MAX"
  proof -
    note v = exato_cobertura[OF m n]
    have "length (melhor ?s') \<le> length c"
      if "set c \<subseteq> set (intervalos sb)" "cobre_todos (pontos sb) (set c)" for c
      using exato_minimo_listas[OF m assms(3) assms(1) that] v(1,2) by simp
    then have "cada_um_cobre_novo (pontos sb) (melhor ?s')"
      using v(3,4) by (rule minimo_sem_redundancia)
    with v(4) show ?thesis by simp
  qed
  from resolver_guloso_final[OF assms(6)] obtain sg' where
    g: "resolver_guloso sg = Some (\<lparr>n_solucao_mg = n_solucao_g sg'\<rparr>, sg')" "inv_guloso sg'"
    "pontos_g sg' = pontos_g sg" by blast
  have "cada_um_cobre_novo (pontos_g sg) (sol_g sg')"
    using g(2) unfolding cada_um_cobre_novo_def inv_guloso_def g(3) by blast
  moreover have "todos_pontos_cobertos sg' \<noteq> 0 \<longrightarrow> cobre_todos (pontos_g sg) (set (sol_g sg'))"
    using todos_cobre[OF g(2)] by (simp add: g(3))
  ultimately show ?thesis using ex g(1) by blast
qed

theorem covers_contain_every_point_and_each_member_adds_witness:
  "pontos (preparar_backtracking exemplo_pontos exemplo_intervalos []) \<noteq> [] \<and>
   n_intervalos (preparar_backtracking exemplo_pontos exemplo_intervalos []) < INT_MAX \<and>
   sem_falhas (alocador (preparar_backtracking exemplo_pontos exemplo_intervalos [])) \<and>
   n_melhor_solucao (preparar_backtracking exemplo_pontos exemplo_intervalos []) = INT_MAX \<and>
   melhor_solucao (preparar_backtracking exemplo_pontos exemplo_intervalos []) = None \<and>
   alocacoes_guloso (preparar_guloso exemplo_pontos exemplo_intervalos_g []) \<and>
   n_melhor_solucao (snd (resolver_backtracking
       (preparar_backtracking exemplo_pontos exemplo_intervalos []))) \<noteq> INT_MAX \<and>
   cobre_todos exemplo_pontos (set (melhor (snd (resolver_backtracking
       (preparar_backtracking exemplo_pontos exemplo_intervalos []))))) \<and>
   cada_um_cobre_novo exemplo_pontos (melhor (snd (resolver_backtracking
       (preparar_backtracking exemplo_pontos exemplo_intervalos [])))) \<and>
   (\<exists>sg'. resolver_guloso (preparar_guloso exemplo_pontos exemplo_intervalos_g [])
             = Some (\<lparr>n_solucao_mg = n_solucao_g sg'\<rparr>, sg') \<and>
          cada_um_cobre_novo exemplo_pontos (sol_g sg'))"
  using covers_contain_every_point_and_each_member_adds
          [OF exemplo_preparado exemplo_preparado_g(2)]
        exemplo_preparado exemplo_preparado_g(2) exemplo_resolvido
  by (simp add: exemplo_campos exemplo_preparado_g(3)) blast

section \<open>Infeasible instances\<close>

text \<open>
  Claim C6. When a point \<open>p\<close> of the instance lies outside every interval, then, whatever
  the allocator does, \<^verbatim>\<open>resolver_backtracking\<close> on the prepared struct leaves
  \<open>n_melhor_solucao\<close> at \<open>INT_MAX\<close>, and \<^verbatim>\<open>resolver_guloso\<close> on the prepared struct
  returns with a covered count different from the number of points
  (\<^verbatim>\<open>todos_pontos_cobertos\<close> is 0).
\<close>

theorem infeasible_instance_is_reported:
  assumes "p \<in> set ps" and "\<forall>iv \<in> set ivs. \<not> cobre p iv" and "\<forall>iv \<in> set ivs'. \<not> cobre p iv"
  shows "n_melhor_solucao (snd (resolver_backtracking (preparar_backtracking ps ivs al))) = INT_MAX \<and>
         (\<exists>m s'. resolver_guloso (preparar_guloso ps ivs' al') = Some (m, s') \<and>
                 todos_pontos_cobertos s' = 0)"
proof -
  let ?sb = "preparar_backtracking ps ivs al"
  let ?sg = "preparar_guloso ps ivs' al'"
  have b: "n_melhor_solucao ?sb = INT_MAX" "melhor_solucao ?sb = None" "pontos ?sb = ps"
    "intervalos ?sb = ivs"
    by (simp_all add: preparar_backtracking_def inicializar_problema_backtracking_def)
  have g: "n_pontos_cobertos_g ?sg = 0" "pontos_g ?sg = ps" "intervalos_g ?sg = ivs'"
    by (simp_all add: preparar_guloso_def inicializar_problema_def)
  have "n_melhor_solucao (snd (resolver_backtracking ?sb)) = INT_MAX"
    by (rule exato_inviavel[OF melhor_ok_preparado[OF b(1,2)] b(1), of p])
       (use assms in \<open>simp_all add: b\<close>)
  moreover have "\<exists>m s'. resolver_guloso ?sg = Some (m, s') \<and> todos_pontos_cobertos s' = 0"
    by (rule guloso_inviavel[OF g(1), of p]) (use assms in \<open>simp_all add: g\<close>)
  ultimately show ?thesis by simp
qed

theorem infeasible_instance_is_reported_witness:
  "\<not> cobre exemplo_ponto_longe \<lparr>inicio = 50, fim = 70\<rparr> \<and>
   \<not> cobre exemplo_ponto_longe \<lparr>inicio = 0, fim = 10\<rparr> \<and>
   n_melhor_solucao (snd (resolver_backtracking
       (preparar_backtracking (exemplo_pontos @ [exemplo_ponto_longe]) exemplo_intervalos [])))
     = INT_MAX \<and>
   (\<exists>m s'. resolver_guloso
              (preparar_guloso (exemplo_pontos @ [exemplo_ponto_longe]) exemplo_intervalos_g [])
             = Some (m, s') \<and> todos_pontos_cobertos s' = 0)"
proof -
  have c: "\<not> cobre exemplo_ponto_longe \<lparr>inicio = 50, fim = 70\<rparr>"
    "\<not> cobre exemplo_ponto_longe \<lparr>inicio = 0, fim = 10\<rparr>"
    by (simp_all add: cobre_def exemplo_ponto_longe_def)
  have h: "exemplo_ponto_longe \<in> set (exemplo_pontos @ [exemplo_ponto_longe])"
    "\<forall>iv \<in> set exemplo_intervalos. \<not> cobre exemplo_ponto_longe iv"
    "\<forall>iv \<in> set exemplo_intervalos_g. \<not> cobre exemplo_ponto_longe iv"
    using c by (simp_all add: exemplo_intervalos_def exemplo_intervalos_g_def)
  from infeasible_instance_is_reported[OF h, of "[]" "[]"] c show ?thesis by simp
qed

section \<open>The exact solver against the greedy solver\<close>

text \<open>
  Claim C2. Give the exact solver and the greedy solver the same points and arrays
  with the same intervals (in any two orders), the exact struct prepared, at least one
  point, fewer than \<open>INT_MAX\<close> intervals, no allocation failure. If some set of the
  intervals covers every point, the greedy solver covers every point and the size
  reported by \<^verbatim>\<open>resolver_backtracking\<close> is at most the size reported by
  \<^verbatim>\<open>resolver_guloso\<close>.
\<close>

theorem exact_size_at_most_greedy_size:
  assumes "pontos sb \<noteq> []" and "n_intervalos sb < INT_MAX" and "sem_falhas (alocador sb)"
    and "n_melhor_solucao sb = INT_MAX" and "melhor_solucao sb = None"
    and "sem_falhas (alocador_g sg)" and "pontos_g sg = pontos sb"
    and "set (intervalos_g sg) = set (intervalos sb)"
    and "\<exists>A. A \<subseteq> set (intervalos sb) \<and> cobre_todos (pontos sb) A"
  shows "\<exists>sg'. resolver_guloso sg = Some (\<lparr>n_solucao_mg = n_solucao_g sg'\<rparr>, sg') \<and>
               todos_pontos_cobertos sg' \<noteq> 0 \<and>
               n_solucao_m (fst (resolver_backtracking sb)) \<le> n_solucao_g sg'"
proof -
  have m: "melhor_ok sb" using assms(4,5) by (rule melhor_ok_preparado)
  have ok: "fst (c_alloc (alocador sb))" using assms(3) by (simp add: sem_falhas_alloc)
  from assms(9) obtain A where A: "A \<subseteq> set (intervalos sb)" "cobre_todos (pontos sb) A" by blast
  then have cov: "\<forall>p \<in> set (pontos_g sg). \<exists>iv \<in> set (intervalos_g sg). cobre p iv"
    unfolding cobre_todos_def assms(7,8) by blast
  from guloso_viavel[OF sem_falhas_alocacoes[OF assms(6)] cov] obtain sg' where
    g: "resolver_guloso sg = Some (\<lparr>n_solucao_mg = n_solucao_g sg'\<rparr>, sg')" "inv_guloso sg'"
    "pontos_g sg' = pontos_g sg" "intervalos_g sg' = intervalos_g sg"
    "todos_pontos_cobertos sg' \<noteq> 0" by blast
  have c: "cobre_todos (pontos sb) (set (sol_g sg'))"
    using todos_cobre[OF g(2)] g(5) by (simp add: g(3) assms(7))
  have s: "set (sol_g sg') \<subseteq> set (intervalos sb)"
    using inv_guloso_limites(4)[OF g(2)] by (simp add: g(4) assms(8))
  have "n_melhor_solucao (snd (resolver_backtracking sb)) \<le> int (length (sol_g sg'))"
    by (rule exato_minimo_listas[OF m assms(3) assms(1) s c])
  also have "\<dots> = n_solucao_g sg'"
    using inv_guloso_limites(3)[OF g(2)] g(2) by (simp add: inv_guloso_def)
  finally show ?thesis using g(1,5) by (simp add: exato_metricas[OF ok])
qed

theorem exact_size_at_most_greedy_size_witness:
  "pontos (preparar_backtracking exemplo_pontos exemplo_intervalos []) \<noteq> [] \<and>
   n_intervalos (preparar_backtracking exemplo_pontos exemplo_intervalos []) < INT_MAX \<and>
   sem_falhas (alocador (preparar_backtracking exemplo_pontos exemplo_intervalos [])) \<and>
   n_melhor_solucao (preparar_backtracking exemplo_pontos exemplo_intervalos []) = INT_MAX \<and>
   melhor_solucao (preparar_backtracking exemplo_pontos exemplo_intervalos []) = None \<and>
   sem_falhas (alocador_g (preparar_guloso exemplo_pontos exemplo_intervalos_g [])) \<and>
   set exemplo_intervalos_g = set exemplo_intervalos \<and>
   cobre_todos exemplo_pontos (set exemplo_intervalos) \<and>
   (\<exists>sg'. resolver_guloso (preparar_guloso exemplo_pontos exemplo_intervalos_g [])
             = Some (\<lparr>n_solucao_mg = n_solucao_g sg'\<rparr>, sg') \<and>
          n_solucao_m (fst (resolver_backtracking
             (preparar_backtracking exemplo_pontos exemplo_intervalos []))) \<le> n_solucao_g sg')"
proof -
  let ?sb = "preparar_backtracking exemplo_pontos exemplo_intervalos []"
  let ?sg = "preparar_guloso exemplo_pontos exemplo_intervalos_g []"
  have e: "set exemplo_intervalos_g = set exemplo_intervalos"
    by (auto simp: exemplo_intervalos_def exemplo_intervalos_g_def)
  have h7: "pontos_g ?sg = pontos ?sb" by (simp add: exemplo_campos exemplo_preparado_g)
  have h8: "set (intervalos_g ?sg) = set (intervalos ?sb)"
    by (simp add: exemplo_campos exemplo_preparado_g e)
  have h9: "\<exists>A. A \<subseteq> set (intervalos ?sb) \<and> cobre_todos (pontos ?sb) A"
    using exemplo_cobre unfolding exemplo_campos by blast
  from exact_size_at_most_greedy_size[OF exemplo_preparado exemplo_preparado_g(1) h7 h8 h9]
    exemplo_preparado exemplo_preparado_g(1) e exemplo_cobre
  show ?thesis by simp blast
qed

section \<open>Solving twice\<close>

text \<open>
  Claim C3, as stated, fails for the node count: \<^verbatim>\<open>resolver_backtracking\<close> resets
  \<open>n_solucao_atual\<close> and \<open>nos_visitados\<close> but keeps \<open>n_melhor_solucao\<close> and
  \<open>melhor_solucao\<close>, so a second call on the same struct starts from the bound the first
  call found. On the small instance the first call visits 5 nodes and the second 3.
\<close>

theorem second_invocation_visits_fewer_nodes:
  "nos_visitados_m (fst (resolver_backtracking
       (preparar_backtracking exemplo_pontos exemplo_intervalos []))) = 5 \<and>
   nos_visitados_m (fst (resolver_backtracking (snd (resolver_backtracking
       (preparar_backtracking exemplo_pontos exemplo_intervalos []))))) = 3 \<and>
   n_melhor_solucao (preparar_backtracking exemplo_pontos exemplo_intervalos []) = 2147483647 \<and>
   n_melhor_solucao (snd (resolver_backtracking
       (preparar_backtracking exemplo_pontos exemplo_intervalos []))) = 1"
  by code_simp

text \<open>
  Claim C3, amended. Two solves of the same instance, each on a struct that
  \<^verbatim>\<open>inicializar_problema_backtracking\<close> (or \<^verbatim>\<open>inicializar_problema\<close>) and a scenario have
  prepared, give the same result whatever the blocks from \<^verbatim>\<open>malloc\<close> hold, when no
  allocation fails: the exact solver reports the same size and the same node count and
  leaves the same best cover, and the greedy solver reports the same size and leaves the
  same cover. A second call on the struct the first call left (at least one point,
  fewer than \<open>INT_MAX\<close> intervals) returns the same cover and the same size again, for
  \<^verbatim>\<open>resolver_backtracking\<close> and for \<^verbatim>\<open>resolver_guloso\<close>; nothing is said about the node
  count of that call.
\<close>

theorem solving_twice_returns_same_cover:
  assumes "ps \<noteq> []" and "int (length ivs) < INT_MAX"
    and "sem_falhas al" and "sem_falhas al'" and "sem_falhas ag" and "sem_falhas ag'"
  shows "fst (resolver_backtracking (preparar_backtracking ps ivs al'))
           = fst (resolver_backtracking (preparar_backtracking ps ivs al)) \<and>
         melhor (snd (resolver_backtracking (preparar_backtracking ps ivs al')))
           = melhor (snd (resolver_backtracking (preparar_backtracking ps ivs al))) \<and>
         (\<exists>m s1 s1'. resolver_guloso (preparar_guloso ps ivs_g ag) = Some (m, s1) \<and>
              resolver_guloso (preparar_guloso ps ivs_g ag') = Some (m, s1') \<and>
              sol_g s1' = sol_g s1) \<and>
         melhor (snd (resolver_backtracking (snd (resolver_backtracking
                   (preparar_backtracking ps ivs al)))))
           = melhor (snd (resolver_backtracking (preparar_backtracking ps ivs al))) \<and>
         n_solucao_m (fst (resolver_backtracking (snd (resolver_backtracking
                   (preparar_backtracking ps ivs al)))))
           = n_solucao_m (fst (resolver_backtracking (preparar_backtracking ps ivs al))) \<and>
         (\<exists>m s1 s2. resolver_guloso (preparar_guloso ps ivs_g ag) = Some (m, s1) \<and>
              resolver_guloso s1 = Some (m, s2) \<and> sol_g s2 = sol_g s1)"
proof -
  let ?sb = "preparar_backtracking ps ivs al"
  let ?sg = "preparar_guloso ps ivs_g ag" and ?sg' = "preparar_guloso ps ivs_g ag'"
  let ?s1 = "snd (resolver_backtracking ?sb)"
  note p = preparado_campos
  have sf: "sem_falhas (alocador ?sb)" using assms(3) by (simp add: p)
  have ne: "pontos ?sb \<noteq> []" using assms(1) by (simp add: p)
  have m: "melhor_ok ?sb" by (rule melhor_ok_preparado) (simp_all add: p)
  have ok: "fst (c_alloc (alocador ?sb))" using sf by (simp add: sem_falhas_alloc)
  note r = resolver_bt_melhor_limite[OF m]
  then have m1: "melhor_ok ?s1" by simp
  have ok1: "fst (c_alloc (alocador ?s1))"
    using busca_sem_falhas[OF m sf] by (simp add: sem_falhas_alloc)
  have "n_melhor_solucao ?s1 \<le> int (length c)"
    if "set c \<subseteq> set (intervalos ?s1)" "cobre_todos (pontos ?s1) (set c)" for c
    using exato_minimo_listas[OF m sf ne, of c] that r by simp
  with m1 have e: "n_melhor_solucao (snd (resolver_backtracking ?s1)) = n_melhor_solucao ?s1 \<and>
         melhor (snd (resolver_backtracking ?s1)) = melhor ?s1"
    by (rule segunda_busca)
  have al: "alocacoes_guloso ?sg" "alocacoes_guloso ?sg'"
    using assms(5,6) by (simp_all add: sem_falhas_alocacoes p)
  from resolver_guloso_final[OF al(1)] obtain s1 where
    g: "resolver_guloso ?sg = Some (\<lparr>n_solucao_mg = n_solucao_g s1\<rparr>, s1)" by blast
  have "sem_falhas (alocador_g s1)"
    using resolver_guloso_alocador[OF al(1) g] assms(5) by (simp add: sem_falhas_alloc p)
  then have al1: "alocacoes_guloso s1" by (rule sem_falhas_alocacoes)
  from segunda_gulosa[OF al(1) g al1] g obtain m2 s2 where
    g2: "resolver_guloso s1 = Some (m2, s2)" "sol_g s2 = sol_g s1"
      "n_solucao_mg m2 = n_solucao_g s1" by auto
  then have "m2 = \<lparr>n_solucao_mg = n_solucao_g s1\<rparr>" by simp
  with g g2 have duas: "\<exists>m s1 s2. resolver_guloso ?sg = Some (m, s1) \<and>
              resolver_guloso s1 = Some (m, s2) \<and> sol_g s2 = sol_g s1" by blast
  show ?thesis
    using solucoes_iguais[OF assms(3,4), of ps ivs] gulosas_iguais[OF al] e duas
    by (simp add: exato_metricas[OF ok] exato_metricas[OF ok1])
qed

theorem solving_twice_returns_same_cover_witness:
  "exemplo_pontos \<noteq> [] \<and> int (length exemplo_intervalos) < INT_MAX \<and>
   sem_falhas [] \<and> sem_falhas exemplo_alocador \<and>
   fst (resolver_backtracking (preparar_backtracking exemplo_pontos exemplo_intervalos exemplo_alocador))
     = fst (resolver_backtracking (preparar_backtracking exemplo_pontos exemplo_intervalos [])) \<and>
   melhor (snd (resolver_backtracking (snd (resolver_backtracking
             (preparar_backtracking exemplo_pontos exemplo_intervalos [])))))
     = melhor (snd (resolver_backtracking (preparar_backtracking exemplo_pontos exemplo_intervalos []))) \<and>
   (\<exists>m s1 s1'. resolver_guloso (preparar_guloso exemplo_pontos exemplo_intervalos_g []) = Some (m, s1) \<and>
        resolver_guloso (preparar_guloso exemplo_pontos exemplo_intervalos_g exemplo_alocador)
          = Some (m, s1') \<and> sol_g s1' = sol_g s1)"
proof -
  have h: "exemplo_pontos \<noteq> []" "int (length exemplo_intervalos) < INT_MAX"
    "sem_falhas []" "sem_falhas exemplo_alocador"
    by (simp_all add: exemplo_pontos_def exemplo_intervalos_def INT_MAX_def sem_falhas_def
        exemplo_alocador_def)
  from solving_twice_returns_same_cover[OF h(1,2,3,4,3,4), of exemplo_intervalos_g] h
  show ?thesis by simp
qed

section \<open>The quality ratio is computed in double precision\<close>

text \<open>
  Claim C7, as stated, fails: the reported ratio is a \<^verbatim>\<open>double\<close>, and \<open>1 - 4/12\<close> is not
  one. On the scenario \<^verbatim>\<open>MEDIO\<close> the exact solver reports size 4 for 12 intervals and
  the quality \<open>6004799503160662 / 2\<^sup>5\<^sup>3\<close>, which exceeds \<open>1 - 4/12\<close> by
  \<open>1 / (3 \<sqdot> 2\<^sup>5\<^sup>2)\<close>.
\<close>

theorem medio_qualidade_is_not_the_exact_ratio:
  "n_solucao_m (fst (resolver_backtracking
       (preparar_backtracking medio_pontos medio_intervalos []))) = 4 \<and>
   n_intervalos (preparar_backtracking medio_pontos medio_intervalos []) = 12 \<and>
   qualidade_backtracking (preparar_backtracking medio_pontos medio_intervalos [])
     = 6004799503160662 / 9007199254740992 \<and>
   qualidade_backtracking (preparar_backtracking medio_pontos medio_intervalos [])
     - (1 - 4 / 12) = 1 / 13510798882111488 \<and>
   qualidade_backtracking (preparar_backtracking medio_pontos medio_intervalos [])
     \<noteq> 1 - of_int (n_solucao_m (fst (resolver_backtracking
                 (preparar_backtracking medio_pontos medio_intervalos []))))
           / of_int (n_intervalos (preparar_backtracking medio_pontos medio_intervalos []))"
proof -
  let ?s = "preparar_backtracking medio_pontos medio_intervalos []"
  have ok: "fst (c_alloc (alocador ?s))" by (simp add: preparado_campos c_alloc_def)
  have n: "n_intervalos ?s = 12" by (simp add: n_intervalos_def preparado_campos medio_intervalos_def)
  note q = qualidade_bt_sucesso[OF ok]
  have t: "n_solucao_m (fst (resolver_backtracking ?s)) = 4" using q medio_tamanho by simp
  have v: "qualidade_backtracking ?s = 6004799503160662 / 9007199254740992"
    using q by (simp only: medio_tamanho n qualidade_de_um_terco)
  show ?thesis unfolding t n v by simp
qed

text \<open>
  Claim C7, amended. For a solve with a non-empty interval pool whose buffers are
  allocated (for the exact solver: on a prepared struct, and when a cover was found),
  the reported quality is \<open>1 - n_solucao / n_intervalos\<close> computed in double precision:
  the quotient rounded to the nearest double, then the difference rounded to the nearest
  double. It differs from the exact rational by at most \<open>2\<^sup>-\<^sup>5\<^sup>3\<close>, and it equals the
  exact rational if and only if \<open>n_intervalos / gcd (n_solucao, n_intervalos)\<close> is a
  power of two.
\<close>

theorem qualidade_is_ratio_rounded_to_double:
  assumes "n_melhor_solucao sb = INT_MAX" and "melhor_solucao sb = None"
    and "fst (c_alloc (alocador sb))"
    and "0 < n_intervalos sb" and "n_intervalos sb \<le> INT_MAX"
    and "n_melhor_solucao (snd (resolver_backtracking sb)) \<noteq> INT_MAX"
    and "alocacoes_guloso sg" and "0 < n_intervalos_g sg" and "n_intervalos_g sg \<le> INT_MAX"
  shows "qualidade_backtracking sb
           = arredonda (1 - arredonda (of_int (n_solucao_m (fst (resolver_backtracking sb)))
                                        / of_int (n_intervalos sb))) \<and>
         \<bar>qualidade_backtracking sb
            - (1 - of_int (n_solucao_m (fst (resolver_backtracking sb))) / of_int (n_intervalos sb))\<bar>
           \<le> 1 / 2 ^ 53 \<and>
         (qualidade_backtracking sb
            = 1 - of_int (n_solucao_m (fst (resolver_backtracking sb))) / of_int (n_intervalos sb)
          \<longleftrightarrow> (\<exists>k. n_intervalos sb
                      div gcd (n_solucao_m (fst (resolver_backtracking sb))) (n_intervalos sb)
                    = 2 ^ k)) \<and>
         (\<exists>m s' q. resolver_guloso sg = Some (m, s') \<and> qualidade_guloso sg = Some q \<and>
            q = arredonda (1 - arredonda (of_int (n_solucao_mg m) / of_int (n_intervalos_g sg))) \<and>
            \<bar>q - (1 - of_int (n_solucao_mg m) / of_int (n_intervalos_g sg))\<bar> \<le> 1 / 2 ^ 53 \<and>
            (q = 1 - of_int (n_solucao_mg m) / of_int (n_intervalos_g sg)
             \<longleftrightarrow> (\<exists>k. n_intervalos_g sg div gcd (n_solucao_mg m) (n_intervalos_g sg) = 2 ^ k)))"
proof -
  have m: "melhor_ok sb" using assms(1,2) by (rule melhor_ok_preparado)
  note l = exato_limites[OF m assms(6)]
  note q = qualidade_bt_sucesso[OF assms(3)]
  from q have t: "n_solucao_m (fst (resolver_backtracking sb))
      = n_melhor_solucao (snd (resolver_backtracking sb))" by simp
  have la: "n_melhor_solucao (snd (resolver_backtracking sb)) \<le> INT_MAX"
    using l(2) assms(5) by simp
  have b1: "qualidade_backtracking sb
           = arredonda (1 - arredonda (of_int (n_solucao_m (fst (resolver_backtracking sb)))
                                        / of_int (n_intervalos sb)))"
    using q qualidade_forma[OF l(1) la assms(4,5)] by (simp only: t)
  have b2: "\<bar>qualidade_backtracking sb
            - (1 - of_int (n_solucao_m (fst (resolver_backtracking sb))) / of_int (n_intervalos sb))\<bar>
           \<le> 1 / 2 ^ 53"
    using q qualidade_erro[OF l assms(4,5)] by (simp only: t)
  have b3: "qualidade_backtracking sb
            = 1 - of_int (n_solucao_m (fst (resolver_backtracking sb))) / of_int (n_intervalos sb)
          \<longleftrightarrow> (\<exists>k. n_intervalos sb
                      div gcd (n_solucao_m (fst (resolver_backtracking sb))) (n_intervalos sb)
                    = 2 ^ k)"
    using q qualidade_exata_iff[OF l assms(4,5)] by (simp only: t)
  from qualidade_guloso_sucesso[OF assms(7)] obtain s' where
    g: "resolver_guloso sg = Some (\<lparr>n_solucao_mg = n_solucao_g s'\<rparr>, s')"
    "qualidade_guloso sg = Some (calcular_qualidade (n_solucao_g s') (n_intervalos_g sg))"
    "0 \<le> n_solucao_g s'" "n_solucao_g s' \<le> n_intervalos_g sg" by blast
  have lg: "n_solucao_g s' \<le> INT_MAX" using g(4) assms(9) by simp
  let ?m = "\<lparr>n_solucao_mg = n_solucao_g s'\<rparr>"
  let ?q = "calcular_qualidade (n_solucao_g s') (n_intervalos_g sg)"
  have "?q = arredonda (1 - arredonda (of_int (n_solucao_mg ?m) / of_int (n_intervalos_g sg)))"
    using qualidade_forma[OF g(3) lg assms(8,9)] by simp
  moreover have "\<bar>?q - (1 - of_int (n_solucao_mg ?m) / of_int (n_intervalos_g sg))\<bar> \<le> 1 / 2 ^ 53"
    using qualidade_erro[OF g(3,4) assms(8,9)] by simp
  moreover have "?q = 1 - of_int (n_solucao_mg ?m) / of_int (n_intervalos_g sg)
             \<longleftrightarrow> (\<exists>k. n_intervalos_g sg div gcd (n_solucao_mg ?m) (n_intervalos_g sg) = 2 ^ k)"
    using qualidade_exata_iff[OF g(3,4) assms(8,9)] by simp
  ultimately have "\<exists>m s' q. resolver_guloso sg = Some (m, s') \<and> qualidade_guloso sg = Some q \<and>
            q = arredonda (1 - arredonda (of_int (n_solucao_mg m) / of_int (n_intervalos_g sg))) \<and>
            \<bar>q - (1 - of_int (n_solucao_mg m) / of_int (n_intervalos_g sg))\<bar> \<le> 1 / 2 ^ 53 \<and>
            (q = 1 - of_int (n_solucao_mg m) / of_int (n_intervalos_g sg)
             \<longleftrightarrow> (\<exists>k. n_intervalos_g sg div gcd (n_solucao_mg m) (n_intervalos_g sg) = 2 ^ k))"
    using g(1,2) by blast
  with b1 b2 b3 show ?thesis by blast
qed

theorem qualidade_is_ratio_rounded_to_double_witness:
  "n_melhor_solucao (preparar_backtracking exemplo_pontos exemplo_intervalos []) = INT_MAX \<and>
   melhor_solucao (preparar_backtracking exemplo_pontos exemplo_intervalos []) = None \<and>
   fst (c_alloc (alocador (preparar_backtracking exemplo_pontos exemplo_intervalos []))) \<and>
   0 < n_intervalos (preparar_backtracking exemplo_pontos exemplo_intervalos []) \<and>
   n_intervalos (preparar_backtracking exemplo_pontos exemplo_intervalos []) \<le> INT_MAX \<and>
   n_melhor_solucao (snd (resolver_backtracking
       (preparar_backtracking exemplo_pontos exemplo_intervalos []))) \<noteq> INT_MAX \<and>
   alocacoes_guloso (preparar_guloso exemplo_pontos exemplo_intervalos_g []) \<and>
   0 < n_intervalos_g (preparar_guloso exemplo_pontos exemplo_intervalos_g []) \<and>
   n_intervalos_g (preparar_guloso exemplo_pontos exemplo_intervalos_g []) \<le> INT_MAX \<and>
   \<bar>qualidade_backtracking (preparar_backtracking exemplo_pontos exemplo_intervalos [])
      - (1 - of_int (n_solucao_m (fst (resolver_backtracking
                       (preparar_backtracking exemplo_pontos exemplo_intervalos []))))
             / of_int (n_intervalos (preparar_backtracking exemplo_pontos exemplo_intervalos [])))\<bar>
     \<le> 1 / 2 ^ 53 \<and>
   (\<exists>m s' q. resolver_guloso (preparar_guloso exemplo_pontos exemplo_intervalos_g []) = Some (m, s') \<and>
       qualidade_guloso (preparar_guloso exemplo_pontos exemplo_intervalos_g []) = Some q \<and>
       \<bar>q - (1 - of_int (n_solucao_mg m)
                  / of_int (n_intervalos_g (preparar_guloso exemplo_pontos exemplo_intervalos_g [])))\<bar>
         \<le> 1 / 2 ^ 53)"
proof -
  let ?s = "preparar_backtracking exemplo_pontos exemplo_intervalos []"
  let ?g = "preparar_guloso exemplo_pontos exemplo_intervalos_g []"
  have h: "n_melhor_solucao ?s = INT_MAX" "melhor_solucao ?s = None"
    "fst (c_alloc (alocador ?s))" "0 < n_intervalos ?s" "n_intervalos ?s \<le> INT_MAX"
    by (simp_all add: preparado_campos c_alloc_def n_intervalos_def INT_MAX_def
        exemplo_intervalos_def)
  note a = exemplo_preparado_g(2)
  have hg: "0 < n_intervalos_g ?g" "n_intervalos_g ?g \<le> INT_MAX"
    by (simp_all add: preparado_campos n_intervalos_g_def INT_MAX_def exemplo_intervalos_g_def)
  from qualidade_is_ratio_rounded_to_double[OF h exemplo_resolvido a hg] h exemplo_resolvido a hg
  show ?thesis by blast
qed

end
